theory Spec2Isabelle
  imports Main
begin

section \<open>Version markers as stored text\<close>

text \<open>
  The version marker lives in \<open>localStorage\<close> as the decimal text of \<open>Date.now()\<close>
  (\<open>version.toString()\<close>) and is read back with \<open>parseInt(...) || 0\<close>. Numbers are
  modelled as unbounded integers (the markers are millisecond time stamps, far below the
  range where a JavaScript number stops being an exact integer). Strings are byte lists;
  the white space that \<open>parseInt\<close> skips is the ASCII part of the JavaScript definition.
\<close>

definition is_ws :: "char \<Rightarrow> bool" where
  "is_ws c = (c \<in> set [CHR 0x09, CHR 0x0A, CHR 0x0B, CHR 0x0C, CHR 0x0D, CHR '' ''])"

definition dec_val :: "char \<Rightarrow> nat option" where
  "dec_val c = (let n = (of_char c :: nat) in if 48 \<le> n \<and> n \<le> 57 then Some (n - 48) else None)"

definition hex_val :: "char \<Rightarrow> nat option" where
  "hex_val c = (let n = (of_char c :: nat) in
     if 48 \<le> n \<and> n \<le> 57 then Some (n - 48)
     else if 97 \<le> n \<and> n \<le> 102 then Some (n - 87)
     else if 65 \<le> n \<and> n \<le> 70 then Some (n - 55)
     else None)"

text \<open>The longest prefix of digits, read in radix \<open>r\<close>; \<open>None\<close> when there is no digit.\<close>

fun parse_digits :: "(char \<Rightarrow> nat option) \<Rightarrow> nat \<Rightarrow> string \<Rightarrow> nat option \<Rightarrow> nat option" where
  "parse_digits dv r [] acc = acc"
| "parse_digits dv r (c # cs) acc =
     (case dv c of
        None \<Rightarrow> acc
      | Some d \<Rightarrow> parse_digits dv r cs (Some (case acc of None \<Rightarrow> d | Some a \<Rightarrow> a * r + d)))"

text \<open>
  \<open>parseInt(s)\<close> with no radix: leading white space is skipped, one sign is read, a
  \<open>0x\<close>/\<open>0X\<close> prefix selects radix 16, and the digits that follow are read up to the
  first character that is not a digit. \<open>None\<close> is \<open>NaN\<close>.
\<close>

definition parseInt :: "string \<Rightarrow> int option" where
  "parseInt s =
     (let s1 = dropWhile is_ws s;
          (neg, s2) = (case s1 of
                         c # t \<Rightarrow> if c = CHR ''-'' then (True, t)
                                  else if c = CHR ''+'' then (False, t) else (False, s1)
                       | [] \<Rightarrow> (False, s1));
          mag = (case s2 of
                   a # b # t \<Rightarrow>
                     if a = CHR ''0'' \<and> (b = CHR ''x'' \<or> b = CHR ''X'')
                     then parse_digits hex_val 16 t None
                     else parse_digits dec_val 10 s2 None
                 | _ \<Rightarrow> parse_digits dec_val 10 s2 None)
      in map_option (\<lambda>n. if neg then - int n else int n) mag)"

text \<open>
  \<open>parseInt(x) || 0\<close> where \<open>x\<close> is a storage value: \<open>null\<close> (no such key) reads as
  \<open>NaN\<close>, and \<open>NaN\<close> and \<open>0\<close> are both falsy.
\<close>

definition parseIntOr0 :: "string option \<Rightarrow> int" where
  "parseIntOr0 x = (case x of None \<Rightarrow> 0 | Some s \<Rightarrow> (case parseInt s of None \<Rightarrow> 0 | Some n \<Rightarrow> n))"

fun show_nat :: "nat \<Rightarrow> string" where
  "show_nat n = (if n < 10 then [char_of (48 + n)]
                 else show_nat (n div 10) @ [char_of (48 + n mod 10)])"

declare show_nat.simps [simp del]

text \<open>\<open>n.toString()\<close> of an integer.\<close>

definition toString :: "int \<Rightarrow> string" where
  "toString n = (if n < 0 then CHR ''-'' # show_nat (nat (- n)) else show_nat (nat n))"

section \<open>The data of \<open>api-service.js\<close>\<close>

datatype http_method = GET | POST | PUT | DELETE

text \<open>
  \<open>itemData\<close> as \<open>pushToServer\<close> uses it: the \<open>id\<close> that is spliced into the endpoint,
  and the remaining fields, which are only copied into the request body.
\<close>

record 'p item_data =
  item_id :: string
  item_fields :: 'p

text \<open>
  One call of \<open>fetch(url, config)\<close>: the method, the endpoint, the bearer token that
  \<open>getHeaders\<close> put into the headers at that moment (\<open>None\<close> when it put none), and
  the object the body was serialised from.
\<close>

record 'p http_call =
  http_method :: http_method
  endpoint :: string
  authorization :: "string option"
  payload :: "'p item_data option"

text \<open>
  What \<open>response.json()\<close> yields, as far as this file looks at it: \<open>null\<close>, an array,
  an object (of which only the property \<open>error\<close> is read, as the text that
  \<open>new Error(...)\<close> makes of it; \<open>None\<close> when it is missing), or any other value.
\<close>

datatype 'i json = JNull | JArray "'i list" | JObject "string option" | JAtom

text \<open>
  How a \<open>fetch\<close> settles: the promise rejects with an error of some message, or it
  resolves to a response with a status whose \<open>json()\<close> either rejects (\<open>Inl\<close>, the
  message) or gives a value.
\<close>

datatype 'i fetch_outcome =
    FetchRejects string
  | Response nat "string + 'i json"

text \<open>
  The effects on the world outside the two singletons, in the order they happen: a call
  of \<open>fetch\<close>, \<open>localStorage.setItem\<close>, \<open>channel.postMessage\<close> (its action and
  version), and the calls into the rest of the application, \<open>App.refresh()\<close>,
  \<open>Toast.info(...)\<close> and \<open>Auth.logout()\<close>, which are not part of this file and are
  only recorded. Logging is left out.
\<close>

datatype 'p effect =
    Fetched "'p http_call"
  | StorageSet string string
  | Posted string int
  | AppRefresh
  | ToastInfo string
  | AuthLogout

text \<open>
  \<open>State._state\<close>: the \<open>inventory\<close> collection and everything else the application
  keeps in the same object.
\<close>

record ('r, 'o) app_state =
  inventory :: "'r list"
  others :: 'o

text \<open>An entry of \<open>SyncManager.pendingChanges\<close>.\<close>

record 'p pending =
  action :: string
  itemData :: "'p item_data"
  timestamp :: int

text \<open>
  The mutable state one browsing context sees: \<open>ApiService.token\<close>, the two storages,
  \<open>State._state\<close>, the fields of \<open>SyncManager\<close> (\<open>channel\<close> is whether the field holds
  a \<open>BroadcastChannel\<close>), and the trace of effects so far.
\<close>

record ('r, 'o, 'p) world =
  token :: "string option"
  session_auth_token :: "string option"
  localStorage :: "string \<Rightarrow> string option"
  State_state :: "('r, 'o) app_state"
  channel :: bool
  lastSyncTimestamp :: int
  isSyncing :: bool
  pendingChanges :: "'p pending list"
  trace :: "'p effect list"

text \<open>
  What the file takes from its surroundings: the globals \<open>USE_API\<close> and \<open>STORAGE_KEY\<close>,
  the projection of a server row to a local record (lines 190 to 211, which throws when
  \<open>item.id\<close> is missing; \<open>Inl\<close> is the message), and \<open>JSON.stringify\<close> on an inventory
  and on the whole state.
\<close>

record ('i, 'r, 'o) platform =
  USE_API :: bool
  STORAGE_KEY :: string
  mapItem :: "'i \<Rightarrow> string + 'r"
  stringify :: "'r list \<Rightarrow> string"
  stringify_state :: "('r, 'o) app_state \<Rightarrow> string"

text \<open>
  What the environment decides while a handler runs: the reading of \<open>Date.now()\<close>,
  whether \<open>localStorage.setItem\<close> succeeds for a key (it throws when the quota is
  exhausted), and how the \<open>fetch\<close> settles.
\<close>

record 'i env =
  now :: int
  storage_ok :: "string \<Rightarrow> bool"
  outcome :: "'i fetch_outcome"

definition VERSION_KEY :: string where
  "VERSION_KEY = ''repairflow_data_version''"

section \<open>\<open>ApiService\<close>\<close>

text \<open>
  \<open>ApiService.token\<close> as the guards \<open>if (this.token)\<close> and \<open>!ApiService.token\<close>
  read it: \<open>null\<close> and the empty string are both falsy.
\<close>

definition truthy :: "string option \<Rightarrow> bool" where
  "truthy tok = (case tok of None \<Rightarrow> False | Some t \<Rightarrow> t \<noteq> [])"

text \<open>
  \<open>getHeaders\<close>, as far as the \<open>Authorization\<close> header goes: the bearer token when
  the token is truthy, no such header otherwise.
\<close>

definition getHeaders :: "('r, 'o, 'p) world \<Rightarrow> string option" where
  "getHeaders w = (if truthy (token w) then token w else None)"

definition clearToken :: "('r, 'o, 'p) world \<Rightarrow> ('r, 'o, 'p) world" where
  "clearToken w = w\<lparr>token := None, session_auth_token := None\<rparr>"

definition setToken :: "string \<Rightarrow> ('r, 'o, 'p) world \<Rightarrow> ('r, 'o, 'p) world" where
  "setToken t w = w\<lparr>token := Some t, session_auth_token := Some t\<rparr>"

text \<open>
  The \<open>catch\<close> of \<open>request\<close>: an error whose message is \<open>Failed to fetch\<close> becomes the
  return value \<open>null\<close>, any other error is thrown on (\<open>Inl\<close>).
\<close>

definition request_catch :: "string \<Rightarrow> string + 'i json" where
  "request_catch msg = (if msg = ''Failed to fetch'' then Inr JNull else Inl msg)"

text \<open>
  The message of the error thrown for a response that is not ok:
  \<open>error.error || 'Request failed'\<close>, where \<open>error\<close> is the parsed body, or
  \<open>{error: 'Request failed'}\<close> when the body does not parse. Reading a property of
  \<open>null\<close> throws a \<open>TypeError\<close> instead.
\<close>

definition error_message :: "string + 'i json \<Rightarrow> string" where
  "error_message b =
     (case b of
        Inl _ \<Rightarrow> ''Request failed''
      | Inr JNull \<Rightarrow> ''Cannot read properties of null''
      | Inr (JObject (Some m)) \<Rightarrow> (if m = [] then ''Request failed'' else m)
      | Inr _ \<Rightarrow> ''Request failed'')"

text \<open>\<open>request\<close> from the point where \<open>await fetch(url, config)\<close> settles.\<close>

definition request_settle ::
  "'i fetch_outcome \<Rightarrow> ('r, 'o, 'p) world \<Rightarrow> (string + 'i json) \<times> ('r, 'o, 'p) world" where
  "request_settle out w =
     (case out of
        FetchRejects msg \<Rightarrow> (request_catch msg, w)
      | Response status b \<Rightarrow>
          if status = 401 then
            (let w1 = clearToken w;
                 w2 = w1\<lparr>trace := trace w1 @ [AuthLogout]\<rparr>
             in (request_catch ''Session expired. Please login again.'', w2))
          else if \<not> (200 \<le> status \<and> status \<le> 299) then
            (request_catch (error_message b), w)
          else
            (case b of
               Inl msg \<Rightarrow> (request_catch msg, w)
             | Inr j \<Rightarrow> (Inr j, w)))"

text \<open>
  \<open>request\<close> up to its \<open>await\<close>: the call of \<open>fetch\<close>, with the headers that
  \<open>getHeaders\<close> builds at that moment.
\<close>

definition request_issue ::
  "http_method \<Rightarrow> string \<Rightarrow> 'p item_data option \<Rightarrow> ('r, 'o, 'p) world \<Rightarrow> ('r, 'o, 'p) world" where
  "request_issue m ep d w =
     w\<lparr>trace := trace w @
         [Fetched \<lparr>http_method = m, endpoint = ep, authorization = getHeaders w, payload = d\<rparr>]\<rparr>"

text \<open>\<open>request\<close> as a whole, with nothing in between.\<close>

definition request ::
  "http_method \<Rightarrow> string \<Rightarrow> 'p item_data option \<Rightarrow> 'i fetch_outcome \<Rightarrow> ('r, 'o, 'p) world
     \<Rightarrow> (string + 'i json) \<times> ('r, 'o, 'p) world" where
  "request m ep d out w = request_settle out (request_issue m ep d w)"

definition get ::
  "string \<Rightarrow> 'i fetch_outcome \<Rightarrow> ('r, 'o, 'p) world \<Rightarrow> (string + 'i json) \<times> ('r, 'o, 'p) world" where
  "get ep out w = request GET ep None out w"

definition post ::
  "string \<Rightarrow> 'p item_data \<Rightarrow> 'i fetch_outcome \<Rightarrow> ('r, 'o, 'p) world
     \<Rightarrow> (string + 'i json) \<times> ('r, 'o, 'p) world" where
  "post ep d out w = request POST ep (Some d) out w"

definition put ::
  "string \<Rightarrow> 'p item_data \<Rightarrow> 'i fetch_outcome \<Rightarrow> ('r, 'o, 'p) world
     \<Rightarrow> (string + 'i json) \<times> ('r, 'o, 'p) world" where
  "put ep d out w = request PUT ep (Some d) out w"

section \<open>\<open>SyncManager\<close>\<close>

text \<open>
  \<open>localStorage.setItem\<close>: it either stores the value or throws, leaving the storage as
  it was.
\<close>

definition setItem ::
  "bool \<Rightarrow> string \<Rightarrow> string \<Rightarrow> ('r, 'o, 'p) world \<Rightarrow> string + ('r, 'o, 'p) world" where
  "setItem ok k v w =
     (if ok then Inr (w\<lparr>localStorage := (localStorage w)(k \<mapsto> v),
                          trace := trace w @ [StorageSet k v]\<rparr>)
      else Inl ''QuotaExceededError'')"

text \<open>
  \<open>broadcastChange(action)\<close>, given the reading \<open>nw\<close> of \<open>Date.now()\<close>. \<open>Inl\<close>: the
  \<open>setItem\<close> in its first statement threw, and nothing was changed.
\<close>

definition broadcastChange ::
  "int \<Rightarrow> bool \<Rightarrow> string \<Rightarrow> ('r, 'o, 'p) world \<Rightarrow> string + ('r, 'o, 'p) world" where
  "broadcastChange nw ok act w =
     (let version = nw in
      case setItem ok VERSION_KEY (toString version) w of
        Inl e \<Rightarrow> Inl e
      | Inr w1 \<Rightarrow>
          (let w2 = w1\<lparr>lastSyncTimestamp := version\<rparr>
           in Inr (if channel w2 then w2\<lparr>trace := trace w2 @ [Posted act version]\<rparr> else w2)))"

text \<open>
  \<open>handleSyncMessage(event)\<close>, given the \<open>action\<close> and the \<open>version\<close> of
  \<open>event.data\<close>; the version is a number, as \<open>broadcastChange\<close> sends it.
\<close>

definition handleSyncMessage ::
  "string \<Rightarrow> int \<Rightarrow> ('r, 'o, 'p) world \<Rightarrow> ('r, 'o, 'p) world" where
  "handleSyncMessage act version w =
     (if version > lastSyncTimestamp w
      then w\<lparr>lastSyncTimestamp := version,
             trace := trace w @ [AppRefresh, ToastInfo ''Data updated from another tab'']\<rparr>
      else w)"

text \<open>\<open>handleStorageChange(event)\<close>, given \<open>event.key\<close> and \<open>event.newValue\<close>.\<close>

definition handleStorageChange ::
  "string \<Rightarrow> string option \<Rightarrow> ('r, 'o, 'p) world \<Rightarrow> ('r, 'o, 'p) world" where
  "handleStorageChange key newValue w =
     (if key = VERSION_KEY then
        (let newVersion = parseIntOr0 newValue in
         if newVersion > lastSyncTimestamp w
         then w\<lparr>lastSyncTimestamp := newVersion,
                trace := trace w @ [AppRefresh, ToastInfo ''Data synchronized'']\<rparr>
         else w)
      else w)"

text \<open>
  \<open>inventory.map(item => ...)\<close>: the records in order, or the first error thrown by the
  projection of an item.
\<close>

fun map_items :: "('i \<Rightarrow> string + 'r) \<Rightarrow> 'i list \<Rightarrow> string + 'r list" where
  "map_items f [] = Inr []"
| "map_items f (x # xs) =
     (case f x of
        Inl e \<Rightarrow> Inl e
      | Inr y \<Rightarrow> (case map_items f xs of Inl e \<Rightarrow> Inl e | Inr ys \<Rightarrow> Inr (y # ys)))"

text \<open>
  \<open>pullFromServer\<close> up to its \<open>await\<close>: the guard, the flag, and the \<open>fetch\<close> that
  \<open>ApiService.get('/api/inventory')\<close> issues. The first component tells whether a fetch
  was issued.
\<close>

definition pullFromServer_begin ::
  "('i, 'r, 'o) platform \<Rightarrow> ('r, 'o, 'p) world \<Rightarrow> bool \<times> ('r, 'o, 'p) world" where
  "pullFromServer_begin p w =
     (if \<not> USE_API p \<or> \<not> truthy (token w) \<or> isSyncing w then (False, w)
      else (True, request_issue GET ''/api/inventory'' None (w\<lparr>isSyncing := True\<rparr>)))"

text \<open>
  Modelled from the spec: the module \<open>State\<close> is not part of this file, and
  \<open>State.get()\<close> is taken to return the object that \<open>State._state\<close> holds, the local
  copy of the synchronised collection that the spec calls the Snapshot.
\<close>

definition State_get :: "('r, 'o, 'p) world \<Rightarrow> ('r, 'o) app_state" where
  "State_get w = State_state w"

text \<open>
  Lines 213 to 220: the comparison of the serialised inventories and, when they differ,
  the replacement, the save and the broadcast. An error thrown by \<open>setItem\<close> ends the
  block where it is thrown (the \<open>catch\<close> of \<open>pullFromServer\<close> only logs it), so the
  result is the world at the point where the block ends or throws.
\<close>

definition reconcile ::
  "('i, 'r, 'o) platform \<Rightarrow> 'i env \<Rightarrow> 'r list \<Rightarrow> ('r, 'o, 'p) world \<Rightarrow> ('r, 'o, 'p) world" where
  "reconcile p e localInventory w =
     (let state = State_get w in
      if stringify p (inventory state) \<noteq> stringify p localInventory then
        (let state' = state\<lparr>inventory := localInventory\<rparr>;
             w1 = w\<lparr>State_state := state'\<rparr>
         in case setItem (storage_ok e (STORAGE_KEY p)) (STORAGE_KEY p)
                   (stringify_state p state') w1 of
              Inl err \<Rightarrow> w1
            | Inr w2 \<Rightarrow>
                (case broadcastChange (now e) (storage_ok e VERSION_KEY) ''inventory_sync'' w2 of
                   Inl err \<Rightarrow> w2
                 | Inr w3 \<Rightarrow> w3))
      else w)"

text \<open>
  The body of the \<open>try\<close> of \<open>pullFromServer\<close> from the point where the fetch settles:
  the rest of \<open>ApiService.get\<close>, then the test of the result and the projection of
  its rows. Every error thrown in it is caught and only logged.
\<close>

definition pull_try ::
  "('i, 'r, 'o) platform \<Rightarrow> 'i env \<Rightarrow> ('r, 'o, 'p) world \<Rightarrow> ('r, 'o, 'p) world" where
  "pull_try p e w =
     (case request_settle (outcome e) w of
        (Inl err, w1) \<Rightarrow> w1
      | (Inr (JArray items), w1) \<Rightarrow>
          (case map_items (mapItem p) items of
             Inl err \<Rightarrow> w1
           | Inr localInventory \<Rightarrow> reconcile p e localInventory w1)
      | (Inr _, w1) \<Rightarrow> w1)"

text \<open>The rest of \<open>pullFromServer\<close>: the \<open>try\<close> and then the \<open>finally\<close>.\<close>

definition pullFromServer_settle ::
  "('i, 'r, 'o) platform \<Rightarrow> 'i env \<Rightarrow> ('r, 'o, 'p) world \<Rightarrow> ('r, 'o, 'p) world" where
  "pullFromServer_settle p e w = (pull_try p e w)\<lparr>isSyncing := False\<rparr>"

text \<open>\<open>pullFromServer\<close> run from its call to its return with nothing in between.\<close>

definition pullFromServer ::
  "('i, 'r, 'o) platform \<Rightarrow> 'i env \<Rightarrow> ('r, 'o, 'p) world \<Rightarrow> ('r, 'o, 'p) world" where
  "pullFromServer p e w =
     (case pullFromServer_begin p w of
        (False, w1) \<Rightarrow> w1
      | (True, w1) \<Rightarrow> pullFromServer_settle p e w1)"

text \<open>
  \<open>checkForUpdates\<close> up to its \<open>await\<close>: the comparison with the stored version, then
  the start of a pull.
\<close>

definition checkForUpdates_begin ::
  "('i, 'r, 'o) platform \<Rightarrow> ('r, 'o, 'p) world \<Rightarrow> bool \<times> ('r, 'o, 'p) world" where
  "checkForUpdates_begin p w =
     (let currentVersion = parseIntOr0 (localStorage w VERSION_KEY);
          w1 = (if currentVersion > lastSyncTimestamp w
                then w\<lparr>lastSyncTimestamp := currentVersion, trace := trace w @ [AppRefresh]\<rparr>
                else w)
      in if USE_API p \<and> truthy (token w1) then pullFromServer_begin p w1 else (False, w1))"

definition checkForUpdates ::
  "('i, 'r, 'o) platform \<Rightarrow> 'i env \<Rightarrow> ('r, 'o, 'p) world \<Rightarrow> ('r, 'o, 'p) world" where
  "checkForUpdates p e w =
     (case checkForUpdates_begin p w of
        (False, w1) \<Rightarrow> w1
      | (True, w1) \<Rightarrow> pullFromServer_settle p e w1)"

text \<open>
  The \<open>switch\<close> of \<open>pushToServer\<close>: the call of \<open>ApiService\<close> that an action
  makes, if it is one of the three cases.
\<close>

definition submit ::
  "string \<Rightarrow> 'p item_data
     \<Rightarrow> ('i fetch_outcome \<Rightarrow> ('r, 'o, 'p) world \<Rightarrow> (string + 'i json) \<times> ('r, 'o, 'p) world) option" where
  "submit act d =
     (if act = ''add'' then Some (post ''/api/inventory'' d)
      else if act = ''update'' then Some (put (''/api/inventory/'' @ item_id d) d)
      else if act = ''sell'' then Some (post (''/api/inventory/'' @ item_id d @ ''/sell'') d)
      else None)"

text \<open>
  \<open>pushToServer(action, itemData)\<close>. The returned value is \<open>None\<close> for \<open>undefined\<close>
  (an action that is none of the three cases makes no request and leaves \<open>result\<close>
  unset), \<open>Some JNull\<close> for \<open>null\<close>.
\<close>

definition pushToServer ::
  "('i, 'r, 'o) platform \<Rightarrow> 'i env \<Rightarrow> string \<Rightarrow> 'p item_data \<Rightarrow> ('r, 'o, 'p) world
     \<Rightarrow> 'i json option \<times> ('r, 'o, 'p) world" where
  "pushToServer p e act d w =
     (if \<not> USE_API p \<or> \<not> truthy (token w) then (Some JNull, w)
      else
        (case submit act d of
           None \<Rightarrow> (None, w)
         | Some call \<Rightarrow>
             (case call (outcome e) w of
                (Inr result, w1) \<Rightarrow> (Some result, w1)
              | (Inl err, w1) \<Rightarrow>
                  (Some JNull,
                   w1\<lparr>pendingChanges := pendingChanges w1 @
                         [\<lparr>action = act, itemData = d, timestamp = now e\<rparr>]\<rparr>))))"

text \<open>
  The \<open>for\<close> loop of \<open>retryPendingChanges\<close>: each change is pushed in turn, in the
  environment of its iteration.
\<close>

fun drain ::
  "('i, 'r, 'o) platform \<Rightarrow> ('p pending \<times> 'i env) list \<Rightarrow> ('r, 'o, 'p) world \<Rightarrow> ('r, 'o, 'p) world" where
  "drain p [] w = w"
| "drain p ((change, e) # rest) w =
     drain p rest (snd (pushToServer p e (action change) (itemData change) w))"

text \<open>
  \<open>retryPendingChanges\<close>; \<open>envs i\<close> is the environment of iteration \<open>i\<close> of its loop.
\<close>

definition retryPendingChanges ::
  "('i, 'r, 'o) platform \<Rightarrow> (nat \<Rightarrow> 'i env) \<Rightarrow> ('r, 'o, 'p) world \<Rightarrow> ('r, 'o, 'p) world" where
  "retryPendingChanges p envs w =
     (if length (pendingChanges w) = 0 then w
      else
        (let changes = pendingChanges w;
             w1 = w\<lparr>pendingChanges := []\<rparr>
         in drain p (zip changes (map envs [0 ..< length changes])) w1))"

section \<open>What a run does to the outside\<close>

text \<open>The calls of \<open>fetch\<close> in a trace, in order.\<close>

fun fetches :: "'p effect list \<Rightarrow> 'p http_call list" where
  "fetches [] = []"
| "fetches (Fetched c # es) = c # fetches es"
| "fetches (_ # es) = fetches es"

text \<open>A write to \<open>localStorage\<close>, and a message on the broadcast channel.\<close>

fun is_save :: "'p effect \<Rightarrow> bool" where
  "is_save (StorageSet k v) = True"
| "is_save _ = False"

fun is_broadcast :: "'p effect \<Rightarrow> bool" where
  "is_broadcast (Posted a v) = True"
| "is_broadcast _ = False"

text \<open>The version markers sent over the broadcast channel, in order.\<close>

fun issued :: "'p effect list \<Rightarrow> int list" where
  "issued [] = []"
| "issued (Posted a v # es) = v # issued es"
| "issued (_ # es) = issued es"

text \<open>The effects that happened between an earlier world and a later one.\<close>

definition new_effects :: "('r, 'o, 'p) world \<Rightarrow> ('r, 'o, 'p) world \<Rightarrow> 'p effect list" where
  "new_effects w w' = drop (length (trace w)) (trace w')"

text \<open>
  The candidate snapshot of a pull: the records that an ok response carrying an array
  maps to, when there is such a response and the projection throws on none of its rows.
\<close>

definition fetched_records :: "('i, 'r, 'o) platform \<Rightarrow> 'i env \<Rightarrow> 'r list option" where
  "fetched_records p e =
     (case outcome e of
        Response status (Inr (JArray items)) \<Rightarrow>
          if 200 \<le> status \<and> status \<le> 299 then
            (case map_items (mapItem p) items of Inl err \<Rightarrow> None | Inr recs \<Rightarrow> Some recs)
          else None
      | _ \<Rightarrow> None)"

text \<open>Whether \<open>request\<close> ends by throwing when the fetch settles this way.\<close>

definition throwing :: "'i fetch_outcome \<Rightarrow> bool" where
  "throwing out =
     (case out of
        FetchRejects msg \<Rightarrow> msg \<noteq> ''Failed to fetch''
      | Response status b \<Rightarrow>
          if status = 401 then True
          else if 200 \<le> status \<and> status \<le> 299
            then (case b of Inl msg \<Rightarrow> msg \<noteq> ''Failed to fetch'' | Inr j \<Rightarrow> False)
          else error_message b \<noteq> ''Failed to fetch'')"

definition unauthorized :: "'i fetch_outcome \<Rightarrow> bool" where
  "unauthorized out = (case out of Response status b \<Rightarrow> status = 401 | _ \<Rightarrow> False)"

text \<open>A submission that succeeds: an ok response whose body parses.\<close>

definition succeeding :: "'i fetch_outcome \<Rightarrow> bool" where
  "succeeding out =
     (case out of
        Response status (Inr j) \<Rightarrow> 200 \<le> status \<and> status \<le> 299
      | _ \<Rightarrow> False)"

text \<open>
  The three actions \<open>pushToServer\<close> has a case for, and the call that a queued change
  with one of these actions makes.
\<close>

definition known_action :: "string \<Rightarrow> bool" where
  "known_action act = (act = ''add'' \<or> act = ''update'' \<or> act = ''sell'')"

definition call_of :: "string option \<Rightarrow> 'p pending \<Rightarrow> 'p http_call" where
  "call_of tok c =
     (if action c = ''add''
        then \<lparr>http_method = POST, endpoint = ''/api/inventory'',
              authorization = tok, payload = Some (itemData c)\<rparr>
      else if action c = ''update''
        then \<lparr>http_method = PUT, endpoint = ''/api/inventory/'' @ item_id (itemData c),
              authorization = tok, payload = Some (itemData c)\<rparr>
      else \<lparr>http_method = POST, endpoint = ''/api/inventory/'' @ item_id (itemData c) @ ''/sell'',
            authorization = tok, payload = Some (itemData c)\<rparr>)"

text \<open>The entry that the \<open>catch\<close> of \<open>pushToServer\<close> appends for a change.\<close>

definition requeued :: "'p pending \<times> 'i env \<Rightarrow> 'p pending" where
  "requeued ce = \<lparr>action = action (fst ce), itemData = itemData (fst ce), timestamp = now (snd ce)\<rparr>"

text \<open>The changes of a queue paired with the environments of the iterations of a drain.\<close>

definition paired :: "(nat \<Rightarrow> 'i env) \<Rightarrow> 'p pending list \<Rightarrow> ('p pending \<times> 'i env) list" where
  "paired envs changes = zip changes (map envs [0 ..< length changes])"

text \<open>Several drain cycles in a row, each with the environments of its own iterations.\<close>

fun cycles ::
  "('i, 'r, 'o) platform \<Rightarrow> (nat \<Rightarrow> 'i env) list \<Rightarrow> ('r, 'o, 'p) world \<Rightarrow> ('r, 'o, 'p) world" where
  "cycles p [] w = w"
| "cycles p (envs # rest) w = cycles p rest (retryPendingChanges p envs w)"

section \<open>One context as a machine of handlers\<close>

text \<open>
  A context runs one handler at a time; a handler gives up control only at an
  \<open>await\<close>. The events are the calls and callbacks that enter this file: a local
  mutation announcing itself (\<open>broadcastChange\<close>), a message on the channel, a storage
  notification (as filtered by the listener that \<open>init\<close> installs), the page becoming
  visible (\<open>checkForUpdates\<close>), a call of \<open>pullFromServer\<close> (the timers, or anyone else),
  the settling of the fetch of a pull that is waiting, a push, a drain of the pending
  queue, and the hosting application setting or clearing the token.
\<close>

datatype ('i, 'p) event =
    LocalMutation string int bool
  | SyncMessage string int
  | StorageEvent string "string option"
  | BecameVisible
  | PullCall
  | PullSettles "'i env"
  | PushCall string "'p item_data" "'i env"
  | RetryCall "nat \<Rightarrow> 'i env"
  | SetToken string
  | ClearToken

text \<open>
  The context: its world, and the number of fetches that pulls have issued and that have
  not settled yet.
\<close>

record ('r, 'o, 'p) ctx =
  world :: "('r, 'o, 'p) world"
  pulls_in_flight :: nat

definition started :: "bool \<times> ('r, 'o, 'p) world \<Rightarrow> ('r, 'o, 'p) ctx \<Rightarrow> ('r, 'o, 'p) ctx" where
  "started r c = \<lparr>world = snd r, pulls_in_flight = pulls_in_flight c + (if fst r then 1 else 0)\<rparr>"

fun step ::
  "('i, 'r, 'o) platform \<Rightarrow> ('i, 'p) event \<Rightarrow> ('r, 'o, 'p) ctx \<Rightarrow> ('r, 'o, 'p) ctx" where
  "step p (LocalMutation act nw ok) c =
     (case broadcastChange nw ok act (world c) of
        Inl err \<Rightarrow> c
      | Inr w \<Rightarrow> c\<lparr>world := w\<rparr>)"
| "step p (SyncMessage act version) c = c\<lparr>world := handleSyncMessage act version (world c)\<rparr>"
| "step p (StorageEvent key newValue) c =
     (if key = ''repairflow_erp_data'' \<or> key = VERSION_KEY
      then c\<lparr>world := handleStorageChange key newValue (world c)\<rparr>
      else c)"
| "step p BecameVisible c = started (checkForUpdates_begin p (world c)) c"
| "step p PullCall c = started (pullFromServer_begin p (world c)) c"
| "step p (PullSettles e) c =
     (if pulls_in_flight c = 0 then c
      else \<lparr>world = pullFromServer_settle p e (world c),
            pulls_in_flight = pulls_in_flight c - 1\<rparr>)"
| "step p (PushCall act d e) c = c\<lparr>world := snd (pushToServer p e act d (world c))\<rparr>"
| "step p (RetryCall envs) c = c\<lparr>world := retryPendingChanges p envs (world c)\<rparr>"
| "step p (SetToken t) c = c\<lparr>world := setToken t (world c)\<rparr>"
| "step p ClearToken c = c\<lparr>world := clearToken (world c)\<rparr>"

text \<open>A run in which the hosting application never sets a token.\<close>

fun is_login :: "('i, 'p) event \<Rightarrow> bool" where
  "is_login (SetToken t) = True"
| "is_login _ = False"

definition no_login :: "('i, 'p) event list \<Rightarrow> bool" where
  "no_login evs = (\<not> list_ex is_login evs)"

fun run ::
  "('i, 'r, 'o) platform \<Rightarrow> ('i, 'p) event list \<Rightarrow> ('r, 'o, 'p) ctx \<Rightarrow> ('r, 'o, 'p) ctx" where
  "run p [] c = c"
| "run p (ev # evs) c = run p evs (step p ev c)"

text \<open>The values of \<open>lastSyncTimestamp\<close> after each event of a run.\<close>

fun versions ::
  "('i, 'r, 'o) platform \<Rightarrow> ('i, 'p) event list \<Rightarrow> ('r, 'o, 'p) ctx \<Rightarrow> int list" where
  "versions p [] c = []"
| "versions p (ev # evs) c =
     lastSyncTimestamp (world (step p ev c)) # versions p evs (step p ev c)"

text \<open>
  The reading of \<open>Date.now()\<close> that an event stamps a version with, if it takes one, is
  not behind the version the context has applied.
\<close>

fun clock_not_behind :: "('i, 'p) event \<Rightarrow> ('r, 'o, 'p) ctx \<Rightarrow> bool" where
  "clock_not_behind (LocalMutation act nw ok) c = (lastSyncTimestamp (world c) \<le> nw)"
| "clock_not_behind (PullSettles e) c = (lastSyncTimestamp (world c) \<le> now e)"
| "clock_not_behind _ c = True"

fun clocks_not_behind ::
  "('i, 'r, 'o) platform \<Rightarrow> ('i, 'p) event list \<Rightarrow> ('r, 'o, 'p) ctx \<Rightarrow> bool" where
  "clocks_not_behind p [] c = True"
| "clocks_not_behind p (ev # evs) c =
     (clock_not_behind ev c \<and> clocks_not_behind p evs (step p ev c))"

section \<open>Concrete contexts\<close>

text \<open>
  A platform over text rows: a row with no text has no \<open>id\<close>, serialising joins the
  records with commas.
\<close>

definition demo_platform :: "(string, string, unit) platform" where
  "demo_platform =
     \<lparr>USE_API = True, STORAGE_KEY = ''repairflow_erp_data'',
      mapItem = (\<lambda>x. if x = [] then Inl ''Cannot read properties of undefined'' else Inr x),
      stringify = (\<lambda>xs. concat (map (\<lambda>x. x @ '','') xs)),
      stringify_state = (\<lambda>s. concat (map (\<lambda>x. x @ '','') (inventory s)))\<rparr>"

text \<open>
  A signed-in context with a broadcast channel, no pull under way and nothing traced
  yet, with the given inventory, applied version, stored version and pending queue.
\<close>

definition demo_world ::
  "string list \<Rightarrow> int \<Rightarrow> string option \<Rightarrow> unit pending list \<Rightarrow> (string, unit, unit) world" where
  "demo_world recs v stored q =
     \<lparr>token = Some ''t0'', session_auth_token = Some ''t0'',
      localStorage = (\<lambda>k. if k = VERSION_KEY then stored else None),
      State_state = \<lparr>inventory = recs, others = ()\<rparr>,
      channel = True, lastSyncTimestamp = v, isSyncing = False,
      pendingChanges = q, trace = []\<rparr>"

definition demo_env :: "int \<Rightarrow> string fetch_outcome \<Rightarrow> string env" where
  "demo_env nw out = \<lparr>now = nw, storage_ok = (\<lambda>k. True), outcome = out\<rparr>"

text \<open>
  Three servers, the same in every iteration of a drain: one that accepts every
  submission, one that rejects every submission with status 400, and one that cannot be
  reached (the message is the one browsers give a failed fetch).
\<close>

definition demo_accepting :: "nat \<Rightarrow> string env" where
  "demo_accepting i = demo_env 20 (Response 201 (Inr (JObject None)))"

definition demo_rejecting :: "nat \<Rightarrow> string env" where
  "demo_rejecting i = demo_env 20 (Response 400 (Inr (JObject (Some ''Serial number already exists''))))"

definition demo_offline :: "nat \<Rightarrow> string env" where
  "demo_offline i = demo_env 20 (FetchRejects ''Failed to fetch'')"

definition demo_change :: "string \<Rightarrow> string \<Rightarrow> int \<Rightarrow> unit pending" where
  "demo_change act i ts =
     \<lparr>action = act, itemData = \<lparr>item_id = i, item_fields = ()\<rparr>, timestamp = ts\<rparr>"

text \<open>
  The invariant behind single flight: the number of pull fetches that have not settled is
  one while \<open>isSyncing\<close> is set and none otherwise.
\<close>

definition single_flight_inv :: "('r, 'o, 'p) ctx \<Rightarrow> bool" where
  "single_flight_inv c = (pulls_in_flight c = (if isSyncing (world c) then 1 else 0))"

section \<open>Reading back a stored version\<close>

declare request_issue_def [simp] State_get_def [simp]

lemma truthy_None [simp]: "\<not> truthy None"
  by (simp add: truthy_def)

lemma truthy_Some [simp]: "truthy (Some t) = (t \<noteq> [])"
  by (simp add: truthy_def)

lemma getHeaders_truthy: "token w = Some t \<Longrightarrow> t \<noteq> [] \<Longrightarrow> getHeaders w = Some t"
  by (simp add: getHeaders_def)

lemma getHeaders_isSyncing [simp]: "getHeaders (w\<lparr>isSyncing := b\<rparr>) = getHeaders w"
  by (simp add: getHeaders_def)

lemma dec_val_digit: "d < 10 \<Longrightarrow> dec_val (char_of (48 + d)) = Some d"
  by (simp add: dec_val_def Let_def)

lemma digit_not_special:
  "dec_val c \<noteq> None \<Longrightarrow> c \<noteq> CHR ''-'' \<and> c \<noteq> CHR ''+''
     \<and> c \<noteq> CHR ''x'' \<and> c \<noteq> CHR ''X'' \<and> \<not> is_ws c"
  by (auto simp: dec_val_def is_ws_def Let_def)

lemma parse_digits_append:
  "list_all (\<lambda>c. dv c \<noteq> None) s \<Longrightarrow>
   parse_digits dv r (s @ t) acc =
   parse_digits dv r t (foldl (\<lambda>a c. Some (case a of None \<Rightarrow> the (dv c) | Some x \<Rightarrow> x * r + the (dv c))) acc s)"
  by (induction s arbitrary: acc) (auto split: option.splits)

lemma show_nat_digits: "list_all (\<lambda>c. dec_val c \<noteq> None) (show_nat n)"
proof (induction n rule: show_nat.induct)
  case (1 n)
  show ?case
  proof (cases "n < 10")
    case True
    then show ?thesis by (subst show_nat.simps) (simp add: dec_val_digit)
  next
    case False
    with 1 show ?thesis by (subst show_nat.simps) (simp add: dec_val_digit)
  qed
qed

lemma foldl_show_nat:
  "foldl (\<lambda>a c. Some (case a of None \<Rightarrow> the (dec_val c) | Some x \<Rightarrow> x * 10 + the (dec_val c))) None (show_nat n) = Some n"
proof (induction n rule: show_nat.induct)
  case (1 n)
  show ?case
  proof (cases "n < 10")
    case True
    then show ?thesis by (subst show_nat.simps) (simp add: dec_val_digit)
  next
    case False
    with 1 show ?thesis by (subst show_nat.simps) (simp add: dec_val_digit)
  qed
qed

lemma parse_show_nat: "parse_digits dec_val 10 (show_nat n) None = Some n"
  using parse_digits_append [OF show_nat_digits, where r = 10 and t = "[]" and acc = None and n1 = n]
  by (simp add: foldl_show_nat)

lemma show_nat_nonempty: "show_nat n \<noteq> []"
  by (subst show_nat.simps) simp

lemma parseInt_show_nat: "parseInt (show_nat n) = Some (int n)"
proof -
  obtain c t where ct: "show_nat n = c # t"
    using show_nat_nonempty [of n] by (cases "show_nat n") auto
  have all: "list_all (\<lambda>c. dec_val c \<noteq> None) (c # t)"
    using show_nat_digits [of n] ct by simp
  then have c: "dec_val c \<noteq> None" by simp
  note cs = digit_not_special [OF c]
  have p: "parse_digits dec_val 10 (c # t) None = Some n"
    using parse_show_nat [of n] ct by simp
  show ?thesis
  proof (cases t)
    case Nil
    with cs p ct show ?thesis by (simp add: parseInt_def)
  next
    case (Cons b u)
    with all have "dec_val b \<noteq> None" by simp
    from digit_not_special [OF this] cs p ct Cons show ?thesis
      by (simp add: parseInt_def)
  qed
qed

lemma parseInt_toString: "parseInt (toString n) = Some n"
proof (cases "n < 0")
  case False
  then show ?thesis using parseInt_show_nat [of "nat n"] by (simp add: toString_def)
next
  case True
  obtain c t where ct: "show_nat (nat (- n)) = c # t"
    using show_nat_nonempty [of "nat (- n)"] by (cases "show_nat (nat (- n))") auto
  have all: "list_all (\<lambda>c. dec_val c \<noteq> None) (c # t)"
    using show_nat_digits [of "nat (- n)"] ct by simp
  then have c: "dec_val c \<noteq> None" by simp
  have p: "parse_digits dec_val 10 (c # t) None = Some (nat (- n))"
    using parse_show_nat [of "nat (- n)"] ct by simp
  have ws: "\<not> is_ws CHR ''-''" by (simp add: is_ws_def)
  show ?thesis
  proof (cases t)
    case Nil
    with True c p ct ws show ?thesis by (simp add: parseInt_def toString_def)
  next
    case (Cons b u)
    with all have "dec_val b \<noteq> None" by simp
    from digit_not_special [OF this] True c p ct ws Cons show ?thesis
      by (simp add: parseInt_def toString_def)
  qed
qed

lemma parseIntOr0_toString [simp]: "parseIntOr0 (Some (toString n)) = n"
  by (simp add: parseIntOr0_def parseInt_toString)

section \<open>The two halves of a pull put together\<close>

text \<open>
  Run with nothing in between, the part of \<open>pullFromServer\<close> before its \<open>await\<close>
  and the part after it make up the function as it is written, and likewise for
  \<open>checkForUpdates\<close>.
\<close>

lemma pullFromServer_whole:
  "pullFromServer p e w =
     (if \<not> USE_API p \<or> \<not> truthy (token w) \<or> isSyncing w then w
      else
        (case get ''/api/inventory'' (outcome e) (w\<lparr>isSyncing := True\<rparr>) of
           (Inl err, w1) \<Rightarrow> w1
         | (Inr (JArray items), w1) \<Rightarrow>
             (case map_items (mapItem p) items of
                Inl err \<Rightarrow> w1
              | Inr localInventory \<Rightarrow> reconcile p e localInventory w1)
         | (Inr _, w1) \<Rightarrow> w1)\<lparr>isSyncing := False\<rparr>)"
  by (simp add: pullFromServer_def pullFromServer_begin_def pullFromServer_settle_def
      pull_try_def get_def request_def)

lemma checkForUpdates_whole:
  "checkForUpdates p e w =
     (let currentVersion = parseIntOr0 (localStorage w VERSION_KEY);
          w1 = (if currentVersion > lastSyncTimestamp w
                then w\<lparr>lastSyncTimestamp := currentVersion, trace := trace w @ [AppRefresh]\<rparr>
                else w)
      in if USE_API p \<and> truthy (token w1) then pullFromServer p e w1 else w1)"
  by (auto simp: checkForUpdates_def checkForUpdates_begin_def pullFromServer_def Let_def
      split: prod.splits)

text \<open>
  The empty string is a token that counts as none: no pull starts, no push is made and
  nothing is queued, and no \<open>Authorization\<close> header would be sent.
\<close>

lemma empty_token_is_no_token:
  "token w = Some [] \<Longrightarrow>
   pullFromServer_begin p w = (False, w) \<and> pushToServer p e act d w = (Some JNull, w)
   \<and> getHeaders w = None"
  by (simp add: pullFromServer_begin_def pushToServer_def getHeaders_def)

section \<open>What each handler leaves alone\<close>

lemma request_settle_isSyncing [simp]: "isSyncing (snd (request_settle out w)) = isSyncing w"
  by (simp add: request_settle_def clearToken_def Let_def split: fetch_outcome.splits sum.splits)

lemma request_settle_lastSync [simp]:
  "lastSyncTimestamp (snd (request_settle out w)) = lastSyncTimestamp w"
  by (simp add: request_settle_def clearToken_def Let_def split: fetch_outcome.splits sum.splits)

lemma fetches_append [simp]: "fetches (xs @ ys) = fetches xs @ fetches ys"
  by (induction xs rule: fetches.induct) simp_all

lemma request_settle_fetches [simp]:
  "fetches (trace (snd (request_settle out w))) = fetches (trace w)"
  by (simp add: request_settle_def clearToken_def Let_def split: fetch_outcome.splits sum.splits)

lemma request_isSyncing [simp]: "isSyncing (snd (request m ep d out w)) = isSyncing w"
  by (simp add: request_def)

lemma request_lastSync [simp]:
  "lastSyncTimestamp (snd (request m ep d out w)) = lastSyncTimestamp w"
  by (simp add: request_def)

lemma broadcastChange_isSyncing:
  "broadcastChange nw ok act w = Inr w' \<Longrightarrow> isSyncing w' = isSyncing w"
  by (auto simp: broadcastChange_def setItem_def Let_def split: if_splits)

lemma broadcastChange_lastSync:
  "broadcastChange nw ok act w = Inr w' \<Longrightarrow> lastSyncTimestamp w' = nw"
  by (auto simp: broadcastChange_def setItem_def Let_def split: if_splits)

lemma pushToServer_off:
  "\<not> USE_API p \<or> \<not> truthy (token w) \<Longrightarrow> pushToServer p e act d w = (Some JNull, w)"
  by (auto simp: pushToServer_def)

lemma pushToServer_unknown:
  "\<not> known_action act \<Longrightarrow> USE_API p \<Longrightarrow> truthy (token w) \<Longrightarrow>
   pushToServer p e act d w = (None, w)"
  by (simp add: pushToServer_def submit_def known_action_def)

lemma submit_known:
  "known_action act \<Longrightarrow>
   submit act d =
     Some (request (http_method (call_of tok \<lparr>action = act, itemData = d, timestamp = ts\<rparr>))
                   (endpoint (call_of tok \<lparr>action = act, itemData = d, timestamp = ts\<rparr>)) (Some d))"
  by (auto simp: submit_def known_action_def call_of_def post_def put_def fun_eq_iff)

lemma pushToServer_known:
  assumes "known_action act" "USE_API p" "truthy (token w)"
  shows "pushToServer p e act d w =
     (case request (http_method (call_of tok \<lparr>action = act, itemData = d, timestamp = ts\<rparr>))
                   (endpoint (call_of tok \<lparr>action = act, itemData = d, timestamp = ts\<rparr>))
                   (Some d) (outcome e) w of
        (Inr result, w1) \<Rightarrow> (Some result, w1)
      | (Inl err, w1) \<Rightarrow>
          (Some JNull,
           w1\<lparr>pendingChanges := pendingChanges w1 @
                 [\<lparr>action = act, itemData = d, timestamp = now e\<rparr>]\<rparr>))"
  using assms by (auto simp: pushToServer_def submit_known [where tok = tok and ts = ts])

lemma pushToServer_frame:
  "isSyncing (snd (pushToServer p e act d w)) = isSyncing w
   \<and> lastSyncTimestamp (snd (pushToServer p e act d w)) = lastSyncTimestamp w"
proof (cases "\<not> USE_API p \<or> \<not> truthy (token w)")
  case True
  then show ?thesis by (simp add: pushToServer_off)
next
  case False
  show ?thesis
  proof (cases "known_action act")
    case u: False
    with False show ?thesis by (simp add: pushToServer_unknown)
  next
    case k: True
    let ?r = "request (http_method (call_of None \<lparr>action = act, itemData = d, timestamp = 0\<rparr>))
                   (endpoint (call_of None \<lparr>action = act, itemData = d, timestamp = 0\<rparr>))
                   (Some d) (outcome e) w"
    obtain r w1 where r: "?r = (r, w1)" by (cases ?r)
    have "isSyncing (snd ?r) = isSyncing w" "lastSyncTimestamp (snd ?r) = lastSyncTimestamp w"
      by simp_all
    with r have w1: "isSyncing w1 = isSyncing w" "lastSyncTimestamp w1 = lastSyncTimestamp w"
      by simp_all
    have "pushToServer p e act d w =
       (case ?r of (Inr result, w1) \<Rightarrow> (Some result, w1)
        | (Inl err, w1) \<Rightarrow> (Some JNull, w1\<lparr>pendingChanges := pendingChanges w1 @
                 [\<lparr>action = act, itemData = d, timestamp = now e\<rparr>]\<rparr>))"
      using False k by (intro pushToServer_known) simp_all
    with r w1 show ?thesis by (cases r) simp_all
  qed
qed

lemma pushToServer_isSyncing [simp]: "isSyncing (snd (pushToServer p e act d w)) = isSyncing w"
  using pushToServer_frame [of p e act d w] by simp

lemma pushToServer_lastSync [simp]:
  "lastSyncTimestamp (snd (pushToServer p e act d w)) = lastSyncTimestamp w"
  using pushToServer_frame [of p e act d w] by simp

lemma drain_isSyncing [simp]: "isSyncing (drain p ps w) = isSyncing w"
  by (induction p ps w rule: drain.induct) simp_all

lemma drain_lastSync [simp]: "lastSyncTimestamp (drain p ps w) = lastSyncTimestamp w"
  by (induction p ps w rule: drain.induct) simp_all

lemma retry_isSyncing [simp]: "isSyncing (retryPendingChanges p envs w) = isSyncing w"
  by (simp add: retryPendingChanges_def Let_def)

lemma retry_lastSync [simp]:
  "lastSyncTimestamp (retryPendingChanges p envs w) = lastSyncTimestamp w"
  by (simp add: retryPendingChanges_def Let_def)

lemma settle_not_syncing [simp]: "\<not> isSyncing (pullFromServer_settle p e w)"
  by (simp add: pullFromServer_settle_def)

lemma begin_cases:
  "pullFromServer_begin p w = (False, w) \<and> (\<not> USE_API p \<or> \<not> truthy (token w) \<or> isSyncing w)
   \<or> (fst (pullFromServer_begin p w) \<and> isSyncing (snd (pullFromServer_begin p w))
       \<and> USE_API p \<and> truthy (token w) \<and> \<not> isSyncing w
       \<and> lastSyncTimestamp (snd (pullFromServer_begin p w)) = lastSyncTimestamp w)"
  by (simp add: pullFromServer_begin_def)

lemma handleSyncMessage_isSyncing [simp]: "isSyncing (handleSyncMessage a v w) = isSyncing w"
  by (simp add: handleSyncMessage_def)

lemma handleStorageChange_isSyncing [simp]: "isSyncing (handleStorageChange k v w) = isSyncing w"
  by (simp add: handleStorageChange_def Let_def)

lemma checkForUpdates_begin_cases:
  "(\<not> fst (checkForUpdates_begin p w)
      \<and> isSyncing (snd (checkForUpdates_begin p w)) = isSyncing w
      \<and> fetches (trace (snd (checkForUpdates_begin p w))) = fetches (trace w))
   \<or> (fst (checkForUpdates_begin p w) \<and> isSyncing (snd (checkForUpdates_begin p w))
       \<and> \<not> isSyncing w)"
  by (simp add: checkForUpdates_begin_def pullFromServer_begin_def Let_def)

lemma step_single_flight: "single_flight_inv c \<Longrightarrow> single_flight_inv (step p ev c)"
proof (cases ev)
  case (LocalMutation act nw ok)
  then show "single_flight_inv c \<Longrightarrow> ?thesis"
    by (auto simp: single_flight_inv_def dest: broadcastChange_isSyncing split: sum.splits)
next
  case BecameVisible
  then show "single_flight_inv c \<Longrightarrow> ?thesis"
    using checkForUpdates_begin_cases [of p "world c"]
    by (auto simp: single_flight_inv_def started_def)
next
  case PullCall
  then show "single_flight_inv c \<Longrightarrow> ?thesis"
    using begin_cases [of p "world c"]
    by (auto simp: single_flight_inv_def started_def)
next
  case (PullSettles e)
  then show "single_flight_inv c \<Longrightarrow> ?thesis"
    by (auto simp: single_flight_inv_def split: if_splits)
qed (auto simp: single_flight_inv_def setToken_def clearToken_def)

lemma run_single_flight: "single_flight_inv c \<Longrightarrow> single_flight_inv (run p evs c)"
  by (induction evs arbitrary: c) (simp_all add: step_single_flight)

lemma handleSyncMessage_mono: "lastSyncTimestamp w \<le> lastSyncTimestamp (handleSyncMessage a v w)"
  by (simp add: handleSyncMessage_def)

lemma handleStorageChange_mono:
  "lastSyncTimestamp w \<le> lastSyncTimestamp (handleStorageChange k v w)"
  by (simp add: handleStorageChange_def Let_def)

lemma checkForUpdates_begin_mono:
  "lastSyncTimestamp w \<le> lastSyncTimestamp (snd (checkForUpdates_begin p w))"
  by (simp add: checkForUpdates_begin_def pullFromServer_begin_def Let_def)

lemma pullFromServer_begin_lastSync [simp]:
  "lastSyncTimestamp (snd (pullFromServer_begin p w)) = lastSyncTimestamp w"
  by (simp add: pullFromServer_begin_def)

lemma pull_try_normal:
  "pull_try p e w =
     (case fetched_records p e of
        Some recs \<Rightarrow> reconcile p e recs w
      | None \<Rightarrow> snd (request_settle (outcome e) w))"
proof (cases "outcome e")
  case (FetchRejects msg)
  then show ?thesis
    by (simp add: pull_try_def fetched_records_def request_settle_def request_catch_def)
next
  case (Response st b)
  show ?thesis
  proof (cases "st = 401")
    case True
    with Response show ?thesis
      by (simp add: pull_try_def fetched_records_def request_settle_def request_catch_def Let_def
          split: sum.splits json.splits)
  next
    case n: False
    show ?thesis
    proof (cases "200 \<le> st \<and> st \<le> 299")
      case False
      with n Response show ?thesis
        by (auto simp: pull_try_def fetched_records_def request_settle_def request_catch_def
            split: sum.splits json.splits)
    next
      case True
      with n Response show ?thesis
        by (simp add: pull_try_def fetched_records_def request_settle_def request_catch_def
            split: sum.splits json.splits)
    qed
  qed
qed

lemma reconcile_lastSync:
  "lastSyncTimestamp (reconcile p e recs w) = lastSyncTimestamp w
   \<or> lastSyncTimestamp (reconcile p e recs w) = now e"
proof (cases "stringify p (inventory (State_state w)) \<noteq> stringify p recs
              \<and> storage_ok e (STORAGE_KEY p) \<and> storage_ok e VERSION_KEY")
  case True
  then show ?thesis
    by (simp add: reconcile_def setItem_def broadcastChange_def Let_def)
next
  case False
  then show ?thesis
    by (auto simp: reconcile_def setItem_def broadcastChange_def Let_def)
qed

lemma pull_try_lastSync:
  "lastSyncTimestamp (pull_try p e w) = lastSyncTimestamp w
   \<or> lastSyncTimestamp (pull_try p e w) = now e"
  using reconcile_lastSync [of p e _ w]
  by (simp add: pull_try_normal split: option.splits)

lemma step_mono:
  "clock_not_behind ev c \<Longrightarrow> lastSyncTimestamp (world c) \<le> lastSyncTimestamp (world (step p ev c))"
proof (cases ev)
  case (LocalMutation act nw ok)
  then show "clock_not_behind ev c \<Longrightarrow> ?thesis"
    by (auto dest: broadcastChange_lastSync split: sum.splits)
next
  case (PullSettles e)
  then show "clock_not_behind ev c \<Longrightarrow> ?thesis"
    using pull_try_lastSync [of p e "world c"]
    by (auto simp: pullFromServer_settle_def)
qed (auto simp: handleSyncMessage_mono handleStorageChange_mono checkForUpdates_begin_mono
       started_def setToken_def clearToken_def)

lemma request_settle_throws: "isl (fst (request_settle out w)) = throwing out"
  by (simp add: request_settle_def throwing_def request_catch_def Let_def
      split: fetch_outcome.splits sum.splits)

lemma request_settle_token:
  "token (snd (request_settle out w)) = (if unauthorized out then None else token w)"
  by (simp add: request_settle_def unauthorized_def clearToken_def Let_def
      split: fetch_outcome.splits sum.splits)

lemma request_settle_pending [simp]:
  "pendingChanges (snd (request_settle out w)) = pendingChanges w"
  by (simp add: request_settle_def clearToken_def Let_def split: fetch_outcome.splits sum.splits)

lemma request_settle_trace:
  "trace (snd (request_settle out w)) = trace w @ (if unauthorized out then [AuthLogout] else [])"
  by (simp add: request_settle_def unauthorized_def clearToken_def Let_def
      split: fetch_outcome.splits sum.splits)

lemma request_settle_rest:
  "State_state (snd (request_settle out w)) = State_state w
   \<and> localStorage (snd (request_settle out w)) = localStorage w
   \<and> channel (snd (request_settle out w)) = channel w"
  by (simp add: request_settle_def clearToken_def Let_def split: fetch_outcome.splits sum.splits)

lemma request_throws: "isl (fst (request m ep d out w)) = throwing out"
  by (simp add: request_def request_settle_throws)

lemma request_token:
  "token (snd (request m ep d out w)) = (if unauthorized out then None else token w)"
  by (simp add: request_def request_settle_token)

lemma request_pending [simp]: "pendingChanges (snd (request m ep d out w)) = pendingChanges w"
  by (simp add: request_def)

lemma request_fetches:
  "fetches (trace (snd (request m ep d out w))) =
   fetches (trace w) @ [\<lparr>http_method = m, endpoint = ep, authorization = getHeaders w, payload = d\<rparr>]"
  by (simp add: request_def)

lemma call_of_eta:
  "\<lparr>http_method = http_method (call_of tok c), endpoint = endpoint (call_of tok c),
    authorization = tok, payload = Some (itemData c)\<rparr> = call_of tok c"
  by (simp add: call_of_def)

lemma push_step:
  assumes "USE_API p" "token w = Some t" "t \<noteq> []" "\<not> unauthorized (outcome e)"
  shows "token (snd (pushToServer p e act d w)) = Some t
    \<and> pendingChanges (snd (pushToServer p e act d w)) =
        pendingChanges w @ (if known_action act \<and> throwing (outcome e)
                            then [\<lparr>action = act, itemData = d, timestamp = now e\<rparr>] else [])
    \<and> fetches (trace (snd (pushToServer p e act d w))) =
        fetches (trace w) @ (if known_action act
                             then [call_of (Some t) \<lparr>action = act, itemData = d, timestamp = ts\<rparr>]
                             else [])"
proof (cases "known_action act")
  case False
  with assms show ?thesis by (simp add: pushToServer_unknown)
next
  case True
  let ?c = "\<lparr>action = act, itemData = d, timestamp = ts\<rparr>"
  let ?r = "request (http_method (call_of (Some t) ?c)) (endpoint (call_of (Some t) ?c))
              (Some d) (outcome e) w"
  obtain r w1 where r: "?r = (r, w1)" by (cases ?r)
  have "token (snd ?r) = Some t" "pendingChanges (snd ?r) = pendingChanges w"
       "fetches (trace (snd ?r)) = fetches (trace w) @ [call_of (Some t) ?c]"
       "isl (fst ?r) = throwing (outcome e)"
    using assms call_of_eta [of "Some t" ?c]
    by (simp_all add: request_token request_fetches request_throws getHeaders_truthy)
  with r have w1: "token w1 = Some t" "pendingChanges w1 = pendingChanges w"
       "fetches (trace w1) = fetches (trace w) @ [call_of (Some t) ?c]"
       "isl r = throwing (outcome e)"
    by simp_all
  have "pushToServer p e act d w =
       (case ?r of (Inr result, w1) \<Rightarrow> (Some result, w1)
        | (Inl err, w1) \<Rightarrow> (Some JNull, w1\<lparr>pendingChanges := pendingChanges w1 @
                 [\<lparr>action = act, itemData = d, timestamp = now e\<rparr>]\<rparr>))"
    using assms True by (intro pushToServer_known) simp_all
  with r w1 True show ?thesis by (cases r) simp_all
qed

lemma drain_queue:
  assumes "USE_API p" "token w = Some t" "t \<noteq> []"
      and "list_all (\<lambda>ce. \<not> unauthorized (outcome (snd ce))) ps"
  shows "token (drain p ps w) = Some t
    \<and> pendingChanges (drain p ps w) =
        pendingChanges w @
        map requeued (filter (\<lambda>ce. known_action (action (fst ce)) \<and> throwing (outcome (snd ce))) ps)
    \<and> fetches (trace (drain p ps w)) =
        fetches (trace w) @
        map (\<lambda>ce. call_of (Some t) (fst ce)) (filter (\<lambda>ce. known_action (action (fst ce))) ps)"
  using assms
proof (induction ps arbitrary: w)
  case Nil
  then show ?case by simp
next
  case (Cons ce ps)
  obtain c e where ce: "ce = (c, e)" by (cases ce)
  let ?w = "snd (pushToServer p e (action c) (itemData c) w)"
  have st: "token ?w = Some t"
    "pendingChanges ?w = pendingChanges w @ (if known_action (action c) \<and> throwing (outcome e)
                            then [\<lparr>action = action c, itemData = itemData c, timestamp = now e\<rparr>] else [])"
    "fetches (trace ?w) = fetches (trace w) @ (if known_action (action c)
                             then [call_of (Some t) c] else [])"
  proof -
    have eta: "call_of (Some t) \<lparr>action = action c, itemData = itemData c, timestamp = timestamp c\<rparr>
        = call_of (Some t) c"
      by (simp add: call_of_def)
    show "token ?w = Some t"
    "pendingChanges ?w = pendingChanges w @ (if known_action (action c) \<and> throwing (outcome e)
                            then [\<lparr>action = action c, itemData = itemData c, timestamp = now e\<rparr>] else [])"
    "fetches (trace ?w) = fetches (trace w) @ (if known_action (action c)
                             then [call_of (Some t) c] else [])"
      using push_step [of p w t e "action c" "itemData c" "timestamp c"] Cons.prems ce eta
      by simp_all
  qed
  have "list_all (\<lambda>ce. \<not> unauthorized (outcome (snd ce))) ps" using Cons.prems by simp
  from Cons.IH [OF Cons.prems(1) st(1) Cons.prems(3) this] st ce show ?case
    by (simp add: requeued_def)
qed

section \<open>What a pull does, case by case\<close>

lemma reconcile_same:
  "stringify p recs = stringify p (inventory (State_state w)) \<Longrightarrow> reconcile p e recs w = w"
  by (simp add: reconcile_def Let_def)

lemma reconcile_accept:
  assumes "stringify p recs \<noteq> stringify p (inventory (State_state w))"
      and "storage_ok e (STORAGE_KEY p)" and "storage_ok e VERSION_KEY"
  shows "reconcile p e recs w =
     w\<lparr>State_state := (State_state w)\<lparr>inventory := recs\<rparr>,
       localStorage := ((localStorage w)
          (STORAGE_KEY p \<mapsto> stringify_state p ((State_state w)\<lparr>inventory := recs\<rparr>)))
          (VERSION_KEY \<mapsto> toString (now e)),
       lastSyncTimestamp := now e,
       trace := trace w @
         [StorageSet (STORAGE_KEY p) (stringify_state p ((State_state w)\<lparr>inventory := recs\<rparr>)),
          StorageSet VERSION_KEY (toString (now e))] @
         (if channel w then [Posted ''inventory_sync'' (now e)] else [])\<rparr>"
  using assms by (auto simp: reconcile_def setItem_def broadcastChange_def Let_def)

lemma pull_try_none:
  "fetched_records p e = None \<Longrightarrow> pull_try p e w = snd (request_settle (outcome e) w)"
  by (simp add: pull_try_normal)

lemma pull_try_some:
  "fetched_records p e = Some recs \<Longrightarrow> pull_try p e w = reconcile p e recs w"
  by (simp add: pull_try_normal)

lemma new_effects_append [simp]: "trace w' = trace w @ es \<Longrightarrow> new_effects w w' = es"
  by (simp add: new_effects_def)

lemma new_effects_same [simp]: "trace w' = trace w \<Longrightarrow> new_effects w w' = []"
  by (simp add: new_effects_def)

lemma settle_none_effects:
  "fetched_records p e = None \<Longrightarrow>
   new_effects w (pullFromServer_settle p e w) = (if unauthorized (outcome e) then [AuthLogout] else [])"
  by (simp add: pullFromServer_settle_def pull_try_none request_settle_trace)

lemma settle_idempotent:
  "(fetched_records p e = Some recs \<and> stringify p recs = stringify p (inventory (State_state w)) \<longrightarrow>
      pullFromServer_settle p e w = w\<lparr>isSyncing := False\<rparr>
      \<and> localStorage (pullFromServer p e w) = localStorage w
      \<and> lastSyncTimestamp (pullFromServer p e w) = lastSyncTimestamp w
      \<and> State_state (pullFromServer p e w) = State_state w
      \<and> \<not> list_ex is_save (new_effects w (pullFromServer p e w))
      \<and> \<not> list_ex is_broadcast (new_effects w (pullFromServer p e w)))
   \<and> (list_ex is_save (new_effects w (pullFromServer_settle p e w))
        \<or> list_ex is_broadcast (new_effects w (pullFromServer_settle p e w)) \<longrightarrow>
       (case fetched_records p e of
          None \<Rightarrow> False
        | Some recs' \<Rightarrow> stringify p recs' \<noteq> stringify p (inventory (State_state w))))"
proof (intro conjI impI)
  assume a: "fetched_records p e = Some recs \<and> stringify p recs = stringify p (inventory (State_state w))"
  then show s: "pullFromServer_settle p e w = w\<lparr>isSyncing := False\<rparr>"
    by (simp add: pullFromServer_settle_def pull_try_some reconcile_same)
  let ?b = "snd (pullFromServer_begin p w)"
  have b: "State_state ?b = State_state w" "localStorage ?b = localStorage w"
    "lastSyncTimestamp ?b = lastSyncTimestamp w"
    by (simp_all add: pullFromServer_begin_def)
  have sb: "pullFromServer_settle p e ?b = ?b\<lparr>isSyncing := False\<rparr>"
    using a b by (simp add: pullFromServer_settle_def pull_try_some reconcile_same)
  have pf: "pullFromServer p e w = w \<or> pullFromServer p e w = ?b\<lparr>isSyncing := False\<rparr>"
    using sb by (auto simp: pullFromServer_def pullFromServer_begin_def split: prod.splits)
  have tr: "trace ?b = trace w \<or> trace ?b = trace w @
      [Fetched \<lparr>http_method = GET, endpoint = ''/api/inventory'', authorization = getHeaders w, payload = None\<rparr>]"
    by (simp add: pullFromServer_begin_def)
  from pf b show "localStorage (pullFromServer p e w) = localStorage w"
    "lastSyncTimestamp (pullFromServer p e w) = lastSyncTimestamp w"
    "State_state (pullFromServer p e w) = State_state w"
    by auto
  from pf tr show "\<not> list_ex is_save (new_effects w (pullFromServer p e w))"
    "\<not> list_ex is_broadcast (new_effects w (pullFromServer p e w))"
    by (auto simp: new_effects_def)
next
  assume d: "list_ex is_save (new_effects w (pullFromServer_settle p e w))
        \<or> list_ex is_broadcast (new_effects w (pullFromServer_settle p e w))"
  show "case fetched_records p e of
          None \<Rightarrow> False
        | Some recs' \<Rightarrow> stringify p recs' \<noteq> stringify p (inventory (State_state w))"
  proof (cases "fetched_records p e")
    case None
    with d show ?thesis by (simp add: settle_none_effects split: if_splits)
  next
    case (Some recs')
    show ?thesis
    proof (cases "stringify p recs' = stringify p (inventory (State_state w))")
      case True
      with Some have "pullFromServer_settle p e w = w\<lparr>isSyncing := False\<rparr>"
        by (simp add: pullFromServer_settle_def pull_try_some reconcile_same)
      with d show ?thesis by (simp add: new_effects_def)
    next
      case False
      with Some show ?thesis by simp
    qed
  qed
qed

section \<open>Without a token nothing is fetched\<close>

lemma broadcastChange_keeps:
  "broadcastChange nw ok act w = Inr w' \<Longrightarrow>
   token w' = token w \<and> fetches (trace w') = fetches (trace w) \<and> pendingChanges w' = pendingChanges w"
  by (auto simp: broadcastChange_def setItem_def Let_def split: if_splits)

lemma reconcile_keeps:
  "token (reconcile p e recs w) = token w
   \<and> fetches (trace (reconcile p e recs w)) = fetches (trace w)
   \<and> pendingChanges (reconcile p e recs w) = pendingChanges w"
proof (cases "stringify p (inventory (State_state w)) \<noteq> stringify p recs
              \<and> storage_ok e (STORAGE_KEY p) \<and> storage_ok e VERSION_KEY")
  case True
  then show ?thesis
    by (simp add: reconcile_def setItem_def broadcastChange_def Let_def)
next
  case False
  then show ?thesis
    by (auto simp: reconcile_def setItem_def broadcastChange_def Let_def)
qed

lemma fetched_not_unauthorized: "unauthorized (outcome e) \<Longrightarrow> fetched_records p e = None"
  by (auto simp: fetched_records_def unauthorized_def split: fetch_outcome.splits sum.splits json.splits)

lemma settle_keeps:
  "token (pullFromServer_settle p e w) = None \<or> token (pullFromServer_settle p e w) = token w"
  "fetches (trace (pullFromServer_settle p e w)) = fetches (trace w)"
  "pendingChanges (pullFromServer_settle p e w) = pendingChanges w"
  using reconcile_keeps [of p e _ w]
  by (simp_all add: pullFromServer_settle_def pull_try_normal request_settle_token
      split: option.splits)

lemma drain_off: "token w = None \<Longrightarrow> drain p ps w = w"
  by (induction p ps w rule: drain.induct) (simp_all add: pushToServer_off)

lemma step_no_token:
  assumes "token (world c) = None" "\<not> is_login ev"
  shows "token (world (step p ev c)) = None
     \<and> fetches (trace (world (step p ev c))) = fetches (trace (world c))"
proof (cases ev)
  case (LocalMutation act nw ok)
  with assms show ?thesis
    by (auto dest: broadcastChange_keeps split: sum.splits)
next
  case (SyncMessage act v)
  with assms show ?thesis by (simp add: handleSyncMessage_def)
next
  case (StorageEvent k v)
  with assms show ?thesis by (simp add: handleStorageChange_def Let_def)
next
  case BecameVisible
  with assms show ?thesis by (simp add: started_def checkForUpdates_begin_def Let_def)
next
  case PullCall
  with assms show ?thesis by (simp add: started_def pullFromServer_begin_def)
next
  case (PullSettles e)
  with assms settle_keeps [of p e "world c"] show ?thesis by auto
next
  case (PushCall act d e)
  with assms show ?thesis by (simp add: pushToServer_off)
next
  case (RetryCall envs)
  with assms show ?thesis by (simp add: retryPendingChanges_def Let_def drain_off)
next
  case (SetToken t)
  with assms show ?thesis by simp
next
  case ClearToken
  with assms show ?thesis by (simp add: clearToken_def)
qed

lemma run_no_token:
  "token (world c) = None \<Longrightarrow> no_login evs \<Longrightarrow>
   token (world (run p evs c)) = None
   \<and> fetches (trace (world (run p evs c))) = fetches (trace (world c))"
proof (induction evs arbitrary: c)
  case Nil
  then show ?case by simp
next
  case (Cons ev evs)
  then have n: "\<not> is_login ev" "no_login evs" by (simp_all add: no_login_def)
  from step_no_token [OF Cons.prems(1) n(1), of p]
  have s: "token (world (step p ev c)) = None"
    "fetches (trace (world (step p ev c))) = fetches (trace (world c))" by simp_all
  from Cons.IH [OF s(1) n(2)] s(2) show ?case by simp
qed

section \<open>What a drain leaves in the queue\<close>

lemma paired_fst [simp]: "map fst (paired envs q) = q"
  by (simp add: paired_def)

lemma paired_length [simp]: "length (paired envs q) = length q"
  by (simp add: paired_def)

lemma paired_Nil [simp]: "paired envs [] = []"
  by (simp add: paired_def)

lemma list_all_zip_snd:
  "length q = length js \<Longrightarrow>
   list_all (\<lambda>ce. Q (snd ce)) (zip q (map envs js)) = list_all (\<lambda>i. Q (envs i)) js"
  by (induction q js rule: list_induct2) simp_all

lemma paired_all_snd:
  "list_all (\<lambda>ce. Q (snd ce)) (paired envs q) = (\<forall>i<length q. Q (envs i))"
proof -
  have "list_all (\<lambda>ce. Q (snd ce)) (zip q (map envs [0..<length q]))
        = list_all (\<lambda>i. Q (envs i)) [0..<length q]"
    by (rule list_all_zip_snd) simp
  also have "\<dots> = (\<forall>i<length q. Q (envs i))"
    by (auto simp: list_all_iff)
  finally show ?thesis by (simp add: paired_def)
qed

lemma map_fst_zip_same:
  "length xs = length ys \<Longrightarrow> map (\<lambda>ce. f (fst ce)) (zip xs ys) = map f xs"
  by (induction xs ys rule: list_induct2) simp_all

lemma paired_map_fst: "map (\<lambda>ce. f (fst ce)) (paired envs q) = map f q"
  by (simp add: paired_def map_fst_zip_same)

lemma filter_known:
  "list_all (\<lambda>c. known_action (action c)) (map fst ps) \<Longrightarrow>
   filter (\<lambda>ce. known_action (action (fst ce)) \<and> P ce) ps = filter P ps
   \<and> filter (\<lambda>ce. known_action (action (fst ce))) ps = ps"
  by (induction ps) simp_all

lemma retry_queue:
  assumes "USE_API p" "token w = Some t" "t \<noteq> []"
      and "list_all (\<lambda>ce. \<not> unauthorized (outcome (snd ce))) (paired envs (pendingChanges w))"
  shows "token (retryPendingChanges p envs w) = Some t
    \<and> pendingChanges (retryPendingChanges p envs w) =
        map requeued (filter (\<lambda>ce. known_action (action (fst ce)) \<and> throwing (outcome (snd ce)))
                        (paired envs (pendingChanges w)))
    \<and> fetches (trace (retryPendingChanges p envs w)) =
        fetches (trace w) @
        map (\<lambda>ce. call_of (Some t) (fst ce))
            (filter (\<lambda>ce. known_action (action (fst ce))) (paired envs (pendingChanges w)))"
proof (cases "pendingChanges w = []")
  case True
  with assms show ?thesis by (simp add: retryPendingChanges_def)
next
  case False
  let ?w = "w\<lparr>pendingChanges := []\<rparr>"
  have r: "retryPendingChanges p envs w = drain p (paired envs (pendingChanges w)) ?w"
    using False by (simp add: retryPendingChanges_def paired_def Let_def)
  have t: "token ?w = Some t" using assms by simp
  from drain_queue [OF assms(1) t assms(3,4)] r show ?thesis by simp
qed

lemma requeued_keys:
  "map (\<lambda>c. (action c, itemData c)) (map requeued (paired envs q)) = map (\<lambda>c. (action c, itemData c)) q"
proof -
  have "map (\<lambda>c. (action c, itemData c)) (map requeued (paired envs q))
        = map (\<lambda>ce. (action (fst ce), itemData (fst ce))) (paired envs q)"
    by (simp add: requeued_def comp_def)
  with paired_map_fst [of "\<lambda>c. (action c, itemData c)" envs q] show ?thesis by simp
qed

lemma requeued_known:
  "list_all (\<lambda>c. known_action (action c)) (map requeued ps)
   = list_all (\<lambda>c. known_action (action c)) (map fst ps)"
  by (simp add: requeued_def list_all_iff)

lemma retry_all_throw:
  assumes "USE_API p" "token w = Some t" "t \<noteq> []"
      and "list_all (\<lambda>c. known_action (action c)) (pendingChanges w)"
      and "\<forall>i<length (pendingChanges w). throwing (outcome (envs i)) \<and> \<not> unauthorized (outcome (envs i))"
  shows "token (retryPendingChanges p envs w) = Some t
    \<and> pendingChanges (retryPendingChanges p envs w) = map requeued (paired envs (pendingChanges w))"
proof -
  let ?ps = "paired envs (pendingChanges w)"
  have u: "list_all (\<lambda>ce. \<not> unauthorized (outcome (snd ce))) ?ps"
    using assms(5) paired_all_snd [of "\<lambda>e. \<not> unauthorized (outcome e)" envs "pendingChanges w"]
    by simp
  have th: "list_all (\<lambda>ce. throwing (outcome (snd ce))) ?ps"
    using assms(5) paired_all_snd [of "\<lambda>e. throwing (outcome e)" envs "pendingChanges w"]
    by simp
  have k: "list_all (\<lambda>c. known_action (action c)) (map fst ?ps)" using assms(4) by simp
  have "filter (\<lambda>ce. throwing (outcome (snd ce))) ?ps = ?ps"
    using th by (simp add: list_all_iff)
  with filter_known [OF k, of "\<lambda>ce. throwing (outcome (snd ce))"]
  have f: "filter (\<lambda>ce. known_action (action (fst ce)) \<and> throwing (outcome (snd ce))) ?ps = ?ps"
    by simp
  from retry_queue [OF assms(1,2,3) u] f show ?thesis by simp
qed

lemma cycles_all_throw:
  assumes "USE_API p" "t \<noteq> []"
  shows "token w = Some t \<Longrightarrow> list_all (\<lambda>c. known_action (action c)) (pendingChanges w) \<Longrightarrow>
     \<forall>envs\<in>set envss. \<forall>i<length (pendingChanges w).
        throwing (outcome (envs i)) \<and> \<not> unauthorized (outcome (envs i)) \<Longrightarrow>
     map (\<lambda>c. (action c, itemData c)) (pendingChanges (cycles p envss w))
       = map (\<lambda>c. (action c, itemData c)) (pendingChanges w)"
proof (induction envss arbitrary: w)
  case Nil
  then show ?case by simp
next
  case (Cons envs envss)
  let ?w = "retryPendingChanges p envs w"
  have a: "\<forall>i<length (pendingChanges w). throwing (outcome (envs i)) \<and> \<not> unauthorized (outcome (envs i))"
    using Cons.prems(3) by simp
  from retry_all_throw [OF assms(1) Cons.prems(1) assms(2) Cons.prems(2) a]
  have w: "token ?w = Some t" "pendingChanges ?w = map requeued (paired envs (pendingChanges w))"
    by simp_all
  have k: "list_all (\<lambda>c. known_action (action c)) (pendingChanges ?w)"
    using Cons.prems(2) w(2) by (simp add: requeued_known)
  have l: "length (pendingChanges ?w) = length (pendingChanges w)" using w(2) by simp
  have r: "\<forall>envs\<in>set envss. \<forall>i<length (pendingChanges ?w).
        throwing (outcome (envs i)) \<and> \<not> unauthorized (outcome (envs i))"
    using Cons.prems(3) l by simp
  have "map (\<lambda>c. (action c, itemData c)) (pendingChanges ?w)
       = map (\<lambda>c. (action c, itemData c)) (pendingChanges w)"
    using w(2) requeued_keys [of envs "pendingChanges w"] by simp
  with Cons.IH [OF w(1) k r] show ?case by simp
qed

lemma push_throwing_null:
  assumes "USE_API p" "truthy (token w)" "known_action act" "throwing (outcome e)"
  shows "fst (pushToServer p e act d w) = Some JNull"
proof -
  let ?c = "\<lparr>action = act, itemData = d, timestamp = 0\<rparr>"
  let ?r = "request (http_method (call_of None ?c)) (endpoint (call_of None ?c))
              (Some d) (outcome e) w"
  obtain r w1 where r: "?r = (r, w1)" by (cases ?r)
  have "isl (fst ?r)" using assms(4) by (simp add: request_throws)
  with r have i: "isl r" by simp
  have "pushToServer p e act d w =
       (case ?r of (Inr result, w1) \<Rightarrow> (Some result, w1)
        | (Inl err, w1) \<Rightarrow> (Some JNull, w1\<lparr>pendingChanges := pendingChanges w1 @
                 [\<lparr>action = act, itemData = d, timestamp = now e\<rparr>]\<rparr>))"
    using assms by (intro pushToServer_known) simp_all
  with r i show ?thesis by (cases r) simp_all
qed

lemma succeeding_fine: "succeeding out \<Longrightarrow> \<not> throwing out \<and> \<not> unauthorized out"
  by (auto simp: succeeding_def throwing_def unauthorized_def
      split: fetch_outcome.splits sum.splits)

text \<open>
  Every entry of the queue is appended by the \<open>catch\<close> of \<open>pushToServer\<close>, which
  is only reached from one of the three cases of the \<open>switch\<close>: the queue never holds
  an action other than \<open>add\<close>, \<open>update\<close> and \<open>sell\<close>.
\<close>

lemma push_keeps_known:
  assumes "list_all (\<lambda>c. known_action (action c)) (pendingChanges w)"
  shows "list_all (\<lambda>c. known_action (action c)) (pendingChanges (snd (pushToServer p e act d w)))"
proof (cases "\<not> USE_API p \<or> \<not> truthy (token w)")
  case True
  with assms show ?thesis by (simp add: pushToServer_off)
next
  case False
  show ?thesis
  proof (cases "known_action act")
    case u: False
    with False assms show ?thesis by (simp add: pushToServer_unknown)
  next
    case k: True
    let ?c = "\<lparr>action = act, itemData = d, timestamp = 0\<rparr>"
    let ?r = "request (http_method (call_of None ?c)) (endpoint (call_of None ?c))
                (Some d) (outcome e) w"
    obtain r w1 where r: "?r = (r, w1)" by (cases ?r)
    have "pendingChanges (snd ?r) = pendingChanges w" by simp
    with r have w1: "pendingChanges w1 = pendingChanges w" by simp
    have "pushToServer p e act d w =
       (case ?r of (Inr result, w1) \<Rightarrow> (Some result, w1)
        | (Inl err, w1) \<Rightarrow> (Some JNull, w1\<lparr>pendingChanges := pendingChanges w1 @
                 [\<lparr>action = act, itemData = d, timestamp = now e\<rparr>]\<rparr>))"
      using False k by (intro pushToServer_known) simp_all
    with r w1 k assms show ?thesis by (cases r) simp_all
  qed
qed

lemma drain_keeps_known:
  "list_all (\<lambda>c. known_action (action c)) (pendingChanges w) \<Longrightarrow>
   list_all (\<lambda>c. known_action (action c)) (pendingChanges (drain p ps w))"
  by (induction p ps w rule: drain.induct) (simp_all add: push_keeps_known)

lemma retry_keeps_known:
  "list_all (\<lambda>c. known_action (action c)) (pendingChanges w) \<Longrightarrow>
   list_all (\<lambda>c. known_action (action c)) (pendingChanges (retryPendingChanges p envs w))"
  by (simp add: retryPendingChanges_def Let_def drain_keeps_known)

lemma step_keeps_known:
  assumes "list_all (\<lambda>c. known_action (action c)) (pendingChanges (world c))"
  shows "list_all (\<lambda>c. known_action (action c)) (pendingChanges (world (step p ev c)))"
proof (cases ev)
  case (LocalMutation act nw ok)
  with assms show ?thesis by (auto dest: broadcastChange_keeps split: sum.splits)
next
  case (SyncMessage act v)
  with assms show ?thesis by (simp add: handleSyncMessage_def)
next
  case (StorageEvent k v)
  with assms show ?thesis by (simp add: handleStorageChange_def Let_def)
next
  case BecameVisible
  with assms show ?thesis
    by (simp add: started_def checkForUpdates_begin_def pullFromServer_begin_def Let_def)
next
  case PullCall
  with assms show ?thesis by (simp add: started_def pullFromServer_begin_def)
next
  case (PullSettles e)
  with assms show ?thesis by (simp add: settle_keeps)
next
  case (PushCall act d e)
  with assms show ?thesis by (simp add: push_keeps_known)
next
  case (RetryCall envs)
  with assms show ?thesis by (simp add: retry_keeps_known)
next
  case (SetToken t)
  with assms show ?thesis by (simp add: setToken_def)
next
  case ClearToken
  with assms show ?thesis by (simp add: clearToken_def)
qed

lemma queue_actions_known:
  "list_all (\<lambda>c. known_action (action c)) (pendingChanges (world c)) \<Longrightarrow>
   list_all (\<lambda>c. known_action (action c)) (pendingChanges (world (run p evs c)))"
  by (induction evs arbitrary: c) (simp_all add: step_keeps_known)

section \<open>Evaluating the concrete contexts\<close>

lemmas demo_defs = demo_platform_def demo_world_def demo_env_def demo_change_def VERSION_KEY_def
  demo_accepting_def demo_rejecting_def demo_offline_def
lemmas handler_defs = started_def pullFromServer_begin_def checkForUpdates_begin_def
  pullFromServer_settle_def pull_try_def request_settle_def request_catch_def reconcile_def
  setItem_def broadcastChange_def handleSyncMessage_def handleStorageChange_def Let_def

lemmas push_defs = retryPendingChanges_def pushToServer_def submit_def post_def put_def
  getHeaders_def
  request_def request_settle_def request_catch_def error_message_def Let_def

section \<open>The claims\<close>

text \<open>
  C10. Every run of \<open>pullFromServer\<close> that gets past its guard ends with
  \<open>isSyncing\<close> false, whatever the fetch brought (an accepted array, a rejected one,
  a malformed body, a thrown error): the \<open>finally\<close> clears the flag. So the flag
  never keeps a later call from starting a pull: after a pull has settled, the next call
  issues a fetch exactly when \<open>USE_API\<close> is on and the token is truthy (neither
  \<open>null\<close> nor the empty string), which is what the guard tests.
\<close>

theorem pull_releases_flag:
  "\<not> isSyncing (pullFromServer_settle p e w)
   \<and> (fst (pullFromServer_begin p w) \<longrightarrow> \<not> isSyncing (pullFromServer p e w))
   \<and> (fst (pullFromServer_begin p (pullFromServer_settle p e w))
        \<longleftrightarrow> USE_API p \<and> truthy (token (pullFromServer_settle p e w)))"
  by (auto simp: pullFromServer_def pullFromServer_begin_def split: prod.splits)

theorem pull_releases_flag_witness:
  "fst (pullFromServer_begin demo_platform (demo_world [''A''] 1000 None []))
   \<and> \<not> isSyncing (pullFromServer demo_platform (demo_env 2000 (Response 500 (Inl ''Unexpected token''))) (demo_world [''A''] 1000 None []))
   \<and> \<not> isSyncing (pullFromServer_settle demo_platform (demo_env 2000 (Response 500 (Inl ''Unexpected token''))) (demo_world [''A''] 1000 None []))
   \<and> fst (pullFromServer_begin demo_platform
        (pullFromServer_settle demo_platform (demo_env 2000 (Response 500 (Inl ''Unexpected token''))) (demo_world [''A''] 1000 None [])))"
proof -
  let ?w = "demo_world [''A''] 1000 None []"
  let ?e = "demo_env 2000 (Response 500 (Inl ''Unexpected token''))"
  have h: "fst (pullFromServer_begin demo_platform ?w)"
    by (simp add: demo_defs pullFromServer_begin_def)
  have t: "USE_API demo_platform \<and> truthy (token (pullFromServer_settle demo_platform ?e ?w))"
    by (simp add: demo_defs handler_defs error_message_def)
  from pull_releases_flag [of demo_platform ?e ?w] h t show ?thesis by blast
qed

text \<open>
  C5. Single flight. In every run of a context that starts with no pull under way, at
  most one fetch issued by the pull path is unsettled at any time; it is unsettled
  exactly while \<open>isSyncing\<close> is set; and while \<open>isSyncing\<close> is set a further call
  of \<open>pullFromServer\<close> changes nothing and a visibility check issues no fetch.
\<close>

theorem single_flight:
  assumes "pulls_in_flight c = 0" and "\<not> isSyncing (world c)"
  shows "pulls_in_flight (run p evs c) \<le> 1
     \<and> (isSyncing (world (run p evs c)) \<longleftrightarrow> pulls_in_flight (run p evs c) = 1)
     \<and> (isSyncing (world (run p evs c)) \<longrightarrow>
          step p PullCall (run p evs c) = run p evs c
          \<and> pulls_in_flight (step p BecameVisible (run p evs c)) = pulls_in_flight (run p evs c)
          \<and> fetches (trace (world (step p BecameVisible (run p evs c))))
              = fetches (trace (world (run p evs c))))"
proof -
  have "single_flight_inv c" using assms by (simp add: single_flight_inv_def)
  then have inv: "single_flight_inv (run p evs c)" by (rule run_single_flight)
  let ?c = "run p evs c"
  have a: "pulls_in_flight ?c \<le> 1" "isSyncing (world ?c) \<longleftrightarrow> pulls_in_flight ?c = 1"
    using inv by (auto simp: single_flight_inv_def split: if_splits)
  have b: "step p PullCall ?c = ?c" if "isSyncing (world ?c)"
    using that by (simp add: started_def pullFromServer_begin_def)
  have d: "pulls_in_flight (step p BecameVisible ?c) = pulls_in_flight ?c
     \<and> fetches (trace (world (step p BecameVisible ?c))) = fetches (trace (world ?c))"
    if "isSyncing (world ?c)"
    using that checkForUpdates_begin_cases [of p "world ?c"] by (auto simp: started_def)
  from a b d show ?thesis by blast
qed

theorem single_flight_witness:
  "pulls_in_flight (run demo_platform [PullCall, PullCall, BecameVisible]
       \<lparr>world = demo_world [''A''] 1000 None [], pulls_in_flight = 0\<rparr>) = 1
   \<and> isSyncing (world (run demo_platform [PullCall, PullCall, BecameVisible]
       \<lparr>world = demo_world [''A''] 1000 None [], pulls_in_flight = 0\<rparr>))
   \<and> length (fetches (trace (world (run demo_platform [PullCall, PullCall, BecameVisible]
       \<lparr>world = demo_world [''A''] 1000 None [], pulls_in_flight = 0\<rparr>)))) = 1
   \<and> step demo_platform PullCall (run demo_platform [PullCall, PullCall, BecameVisible]
       \<lparr>world = demo_world [''A''] 1000 None [], pulls_in_flight = 0\<rparr>)
      = run demo_platform [PullCall, PullCall, BecameVisible]
       \<lparr>world = demo_world [''A''] 1000 None [], pulls_in_flight = 0\<rparr>"
proof -
  let ?c = "\<lparr>world = demo_world [''A''] 1000 None [], pulls_in_flight = 0\<rparr> :: (string, unit, unit) ctx"
  let ?evs = "[PullCall, PullCall, BecameVisible] :: (string, unit) event list"
  have h: "pulls_in_flight ?c = 0" "\<not> isSyncing (world ?c)"
    by (simp_all add: demo_defs)
  have s: "isSyncing (world (run demo_platform ?evs ?c))"
    by (simp add: demo_defs handler_defs)
  have f: "length (fetches (trace (world (run demo_platform ?evs ?c)))) = 1"
    by (simp add: demo_defs handler_defs)
  from single_flight [OF h, of demo_platform ?evs] s f show ?thesis by simp
qed

text \<open>
  C3, as the code has it. \<open>handleSyncMessage\<close>, \<open>handleStorageChange\<close> and
  \<open>checkForUpdates\<close> only ever raise \<open>lastSyncTimestamp\<close>; \<open>broadcastChange\<close>
  (called for a local mutation, and by a pull that accepts) assigns it the reading of
  \<open>Date.now()\<close>. So along every run in which each such reading is not behind the
  version applied at that moment, \<open>lastSyncTimestamp\<close> never decreases.
\<close>

theorem version_monotone:
  "clocks_not_behind p evs c \<Longrightarrow> sorted (lastSyncTimestamp (world c) # versions p evs c)"
proof (induction evs arbitrary: c)
  case Nil
  then show ?case by simp
next
  case (Cons ev evs)
  then have s: "sorted (lastSyncTimestamp (world (step p ev c)) # versions p evs (step p ev c))"
    by simp
  have "lastSyncTimestamp (world c) \<le> lastSyncTimestamp (world (step p ev c))"
    using Cons.prems by (simp add: step_mono)
  with s show ?case by auto
qed

theorem version_monotone_witness:
  "clocks_not_behind demo_platform
     [LocalMutation ''add'' 1000 True, SyncMessage ''add'' 1500,
      StorageEvent ''repairflow_data_version'' (Some (toString 1200)), BecameVisible,
      PullSettles (demo_env 2000 (Response 200 (Inr (JArray [''A''])))),
      LocalMutation ''sell'' 2000 True]
     \<lparr>world = demo_world [] 0 None [], pulls_in_flight = 0\<rparr>
   \<and> sorted (lastSyncTimestamp (world \<lparr>world = demo_world [] 0 None [], pulls_in_flight = 0\<rparr>) #
       versions demo_platform
     [LocalMutation ''add'' 1000 True, SyncMessage ''add'' 1500,
      StorageEvent ''repairflow_data_version'' (Some (toString 1200)), BecameVisible,
      PullSettles (demo_env 2000 (Response 200 (Inr (JArray [''A''])))),
      LocalMutation ''sell'' 2000 True]
     \<lparr>world = demo_world [] 0 None [], pulls_in_flight = 0\<rparr>)
   \<and> versions demo_platform
     [LocalMutation ''add'' 1000 True, SyncMessage ''add'' 1500,
      StorageEvent ''repairflow_data_version'' (Some (toString 1200)), BecameVisible,
      PullSettles (demo_env 2000 (Response 200 (Inr (JArray [''A''])))),
      LocalMutation ''sell'' 2000 True]
     \<lparr>world = demo_world [] 0 None [], pulls_in_flight = 0\<rparr> = [1000, 1500, 1500, 1500, 2000, 2000]"
proof -
  let ?c = "\<lparr>world = demo_world [] 0 None [], pulls_in_flight = 0\<rparr> :: (string, unit, unit) ctx"
  let ?evs = "[LocalMutation ''add'' 1000 True, SyncMessage ''add'' 1500,
      StorageEvent ''repairflow_data_version'' (Some (toString 1200)), BecameVisible,
      PullSettles (demo_env 2000 (Response 200 (Inr (JArray [''A''])))),
      LocalMutation ''sell'' 2000 True] :: (string, unit) event list"
  have h: "clocks_not_behind demo_platform ?evs ?c"
    by (simp add: demo_defs handler_defs)
  have v: "versions demo_platform ?evs ?c = [1000, 1500, 1500, 1500, 2000, 2000]"
    by (simp add: demo_defs handler_defs)
  from version_monotone [OF h] h v show ?thesis by simp
qed

text \<open>
  C3, the claim as it stands, fails without the condition on the clock: two local
  mutations, the second stamped by a clock that was set back in between, lower
  \<open>lastSyncTimestamp\<close> from 2000 to 1000.
\<close>

theorem version_regress_counterexample:
  "versions demo_platform [LocalMutation ''add'' 2000 True, LocalMutation ''update'' 1000 True]
     \<lparr>world = demo_world [] 0 None [], pulls_in_flight = 0\<rparr> = [2000, 1000]
   \<and> \<not> sorted (lastSyncTimestamp (world \<lparr>world = demo_world [] 0 None [], pulls_in_flight = 0\<rparr>) #
        versions demo_platform [LocalMutation ''add'' 2000 True, LocalMutation ''update'' 1000 True]
          \<lparr>world = demo_world [] 0 None [], pulls_in_flight = 0\<rparr>)"
  by (simp add: demo_defs handler_defs)

text \<open>
  C4. Idempotence of pull. When the records fetched serialise to the same text as the
  inventory that \<open>State.get()\<close> returns, the pull changes nothing but its own flag:
  no write to \<open>localStorage\<close>, the stored and the applied version as they were, no
  message on the channel. And a pull that does save or broadcast is one whose fetched
  records serialise differently.
\<close>

theorem pull_idempotent:
  "(fetched_records p e = Some recs \<and> stringify p recs = stringify p (inventory (State_get w)) \<longrightarrow>
      pullFromServer_settle p e w = w\<lparr>isSyncing := False\<rparr>
      \<and> localStorage (pullFromServer p e w) = localStorage w
      \<and> lastSyncTimestamp (pullFromServer p e w) = lastSyncTimestamp w
      \<and> State_state (pullFromServer p e w) = State_state w
      \<and> \<not> list_ex is_save (new_effects w (pullFromServer p e w))
      \<and> \<not> list_ex is_broadcast (new_effects w (pullFromServer p e w)))
   \<and> (list_ex is_save (new_effects w (pullFromServer_settle p e w))
        \<or> list_ex is_broadcast (new_effects w (pullFromServer_settle p e w)) \<longrightarrow>
       (case fetched_records p e of
          None \<Rightarrow> False
        | Some recs' \<Rightarrow> stringify p recs' \<noteq> stringify p (inventory (State_get w))))"
  unfolding State_get_def by (rule settle_idempotent)

theorem pull_idempotent_witness:
  "fetched_records demo_platform (demo_env 2000 (Response 200 (Inr (JArray [''A'', ''B'']))))
     = Some [''A'', ''B'']
   \<and> pullFromServer_settle demo_platform (demo_env 2000 (Response 200 (Inr (JArray [''A'', ''B'']))))
        ((demo_world [''A'', ''B''] 1000 (Some (toString 1000)) [])\<lparr>isSyncing := True\<rparr>)
      = demo_world [''A'', ''B''] 1000 (Some (toString 1000)) []
   \<and> list_ex is_save (new_effects (demo_world [''A''] 1000 (Some (toString 1000)) [])
        (pullFromServer_settle demo_platform (demo_env 2000 (Response 200 (Inr (JArray [''A'', ''B'']))))
           (demo_world [''A''] 1000 (Some (toString 1000)) [])))"
proof -
  let ?e = "demo_env 2000 (Response 200 (Inr (JArray [''A'', ''B''])))"
  let ?w = "(demo_world [''A'', ''B''] 1000 (Some (toString 1000)) [])\<lparr>isSyncing := True\<rparr>"
  let ?v = "demo_world [''A''] 1000 (Some (toString 1000)) []"
  have f: "fetched_records demo_platform ?e = Some [''A'', ''B'']"
    by (simp add: fetched_records_def demo_defs)
  have i: "stringify demo_platform [''A'', ''B''] = stringify demo_platform (inventory (State_state ?w))"
    by (simp add: demo_defs)
  have u: "?w\<lparr>isSyncing := False\<rparr> = demo_world [''A'', ''B''] 1000 (Some (toString 1000)) []"
    by (simp add: demo_defs)
  have d: "list_ex is_save (new_effects ?v (pullFromServer_settle demo_platform ?e ?v))"
    by (simp add: demo_defs handler_defs new_effects_def)
  from pull_idempotent [of demo_platform ?e "[''A'', ''B'']" ?w] f i u d show ?thesis by simp
qed

text \<open>
  C1, as the code has it. A pull compares no versions: the array it fetched carries
  none, and \<open>lastSyncTimestamp\<close> and the stored version are not read. Whatever the
  local version is, fetched records that serialise differently from the local inventory
  are accepted: the inventory is replaced, the state is saved, and the version becomes
  the reading of \<open>Date.now()\<close> (when \<open>localStorage\<close> takes the two writes).
\<close>

theorem pull_ignores_version:
  assumes "fetched_records p e = Some recs"
      and "stringify p recs \<noteq> stringify p (inventory (State_get w))"
      and "storage_ok e (STORAGE_KEY p)" and "storage_ok e VERSION_KEY"
  shows "inventory (State_state (pullFromServer_settle p e w)) = recs
     \<and> lastSyncTimestamp (pullFromServer_settle p e w) = now e
     \<and> parseIntOr0 (localStorage (pullFromServer_settle p e w) VERSION_KEY) = now e
     \<and> new_effects w (pullFromServer_settle p e w) =
         [StorageSet (STORAGE_KEY p) (stringify_state p ((State_get w)\<lparr>inventory := recs\<rparr>)),
          StorageSet VERSION_KEY (toString (now e))] @
         (if channel w then [Posted ''inventory_sync'' (now e)] else [])"
  using assms
  by (simp add: pullFromServer_settle_def pull_try_some reconcile_accept)

theorem pull_ignores_version_witness:
  "fetched_records demo_platform (demo_env 3500 (Response 200 (Inr (JArray [''A'']))))
     = Some [''A'']
   \<and> inventory (State_state (pullFromServer_settle demo_platform
        (demo_env 3500 (Response 200 (Inr (JArray [''A'']))))
        (demo_world [''C''] 9000 (Some (toString 9000)) []))) = [''A'']
   \<and> lastSyncTimestamp (pullFromServer_settle demo_platform
        (demo_env 3500 (Response 200 (Inr (JArray [''A'']))))
        (demo_world [''C''] 9000 (Some (toString 9000)) [])) = 3500"
proof -
  let ?e = "demo_env 3500 (Response 200 (Inr (JArray [''A''])))"
  let ?w = "demo_world [''C''] 9000 (Some (toString 9000)) []"
  have f: "fetched_records demo_platform ?e = Some [''A'']"
    by (simp add: fetched_records_def demo_defs)
  have d: "stringify demo_platform [''A''] \<noteq> stringify demo_platform (inventory (State_get ?w))"
    by (simp add: demo_defs)
  have s: "storage_ok ?e (STORAGE_KEY demo_platform)" "storage_ok ?e VERSION_KEY"
    by (simp_all add: demo_defs)
  have n: "now ?e = 3500" by (simp add: demo_defs)
  from pull_ignores_version [OF f d s] f n show ?thesis by simp
qed

text \<open>
  C1, the claim as it stands, fails: the local version is 3000, a pull that was under
  way settles with different records, and the local inventory is replaced and restamped
  3500.
\<close>

theorem stale_pull_counterexample:
  "lastSyncTimestamp ((demo_world [''C''] 3000 (Some (toString 3000)) [])\<lparr>isSyncing := True\<rparr>) = 3000
   \<and> inventory (State_state ((demo_world [''C''] 3000 (Some (toString 3000)) [])\<lparr>isSyncing := True\<rparr>)) = [''C'']
   \<and> inventory (State_state (pullFromServer_settle demo_platform
        (demo_env 3500 (Response 200 (Inr (JArray [''A'']))))
        ((demo_world [''C''] 3000 (Some (toString 3000)) [])\<lparr>isSyncing := True\<rparr>))) = [''A'']
   \<and> localStorage (pullFromServer_settle demo_platform
        (demo_env 3500 (Response 200 (Inr (JArray [''A'']))))
        ((demo_world [''C''] 3000 (Some (toString 3000)) [])\<lparr>isSyncing := True\<rparr>)) VERSION_KEY
      = Some (toString 3500)
   \<and> issued (trace (pullFromServer_settle demo_platform
        (demo_env 3500 (Response 200 (Inr (JArray [''A'']))))
        ((demo_world [''C''] 3000 (Some (toString 3000)) [])\<lparr>isSyncing := True\<rparr>))) = [3500]"
  by (simp add: demo_defs handler_defs)

text \<open>
  C2, as the code has it. \<open>broadcastChange\<close> takes the reading of \<open>Date.now()\<close>
  as the marker, unchanged: that number is stored, applied and sent. So the marker is
  strictly greater than the one applied, and than the one stored, exactly when the reading
  of the clock is.
\<close>

theorem broadcastChange_stamps_clock:
  "(case broadcastChange nw True act w of
      Inl err \<Rightarrow> False
    | Inr w' \<Rightarrow>
        lastSyncTimestamp w' = nw
        \<and> parseIntOr0 (localStorage w' VERSION_KEY) = nw
        \<and> new_effects w w' = StorageSet VERSION_KEY (toString nw) # (if channel w then [Posted act nw] else [])
        \<and> (lastSyncTimestamp w < lastSyncTimestamp w') = (lastSyncTimestamp w < nw)
        \<and> (parseIntOr0 (localStorage w VERSION_KEY) < parseIntOr0 (localStorage w' VERSION_KEY))
            = (parseIntOr0 (localStorage w VERSION_KEY) < nw))"
  by (simp add: broadcastChange_def setItem_def Let_def new_effects_def)

theorem broadcastChange_stamps_clock_witness:
  "lastSyncTimestamp (projr (broadcastChange 2000 True ''add'' (demo_world [] 1000 (Some (toString 1000)) []))) = 2000
   \<and> parseIntOr0 (localStorage (projr (broadcastChange 2000 True ''add'' (demo_world [] 1000 (Some (toString 1000)) []))) VERSION_KEY) = 2000"
proof -
  let ?w = "demo_world [] 1000 (Some (toString 1000)) []"
  obtain w' where w': "broadcastChange 2000 True ''add'' ?w = Inr w'"
    by (simp add: broadcastChange_def setItem_def Let_def)
  from broadcastChange_stamps_clock [where nw = 2000 and act = "''add''" and w = ?w] w' show ?thesis by simp
qed

text \<open>
  C2, the claim as it stands, fails: two mutations within one millisecond are issued
  the same marker, and a clock that was set back issues a smaller one.
\<close>

theorem clock_tie_counterexample:
  "issued (trace (world (run demo_platform
      [LocalMutation ''add'' 1000 True, LocalMutation ''update'' 1000 True, LocalMutation ''sell'' 900 True]
      \<lparr>world = demo_world [] 0 None [], pulls_in_flight = 0\<rparr>))) = [1000, 1000, 900]
   \<and> versions demo_platform
      [LocalMutation ''add'' 1000 True, LocalMutation ''update'' 1000 True, LocalMutation ''sell'' 900 True]
      \<lparr>world = demo_world [] 0 None [], pulls_in_flight = 0\<rparr> = [1000, 1000, 900]
   \<and> localStorage (world (run demo_platform
      [LocalMutation ''add'' 1000 True]
      \<lparr>world = demo_world [] 0 None [], pulls_in_flight = 0\<rparr>)) VERSION_KEY = Some (toString 1000)"
  by (simp add: demo_defs handler_defs)

text \<open>
  C9. A request answered with status 401 clears the token in \<open>ApiService\<close> and in
  \<open>sessionStorage\<close>, calls \<open>Auth.logout()\<close> and throws \<open>Session expired\<close>; it
  fetches once and does not fetch again. A pull that meets it ends with no token held and
  nothing else changed, the next call of \<open>pullFromServer\<close> issues no fetch, and as
  long as the hosting application sets no new token no handler of this file fetches
  anything.
\<close>

theorem auth_expired:
  assumes "unauthorized (outcome e)"
  shows "fst (request m ep d (outcome e) w) = Inl ''Session expired. Please login again.''
     \<and> token (snd (request m ep d (outcome e) w)) = None
     \<and> session_auth_token (snd (request m ep d (outcome e) w)) = None
     \<and> new_effects w (snd (request m ep d (outcome e) w)) =
          [Fetched \<lparr>http_method = m, endpoint = ep, authorization = getHeaders w, payload = d\<rparr>, AuthLogout]
     \<and> token (pullFromServer_settle p e w) = None
     \<and> new_effects w (pullFromServer_settle p e w) = [AuthLogout]
     \<and> fst (pullFromServer_begin p (pullFromServer_settle p e w)) = False
     \<and> (no_login evs \<longrightarrow>
          token (world (run p evs \<lparr>world = pullFromServer_settle p e w, pulls_in_flight = n\<rparr>)) = None
          \<and> fetches (trace (world (run p evs \<lparr>world = pullFromServer_settle p e w, pulls_in_flight = n\<rparr>)))
              = fetches (trace w))"
proof -
  from assms obtain b where o: "outcome e = Response 401 b"
    by (auto simp: unauthorized_def split: fetch_outcome.splits)
  have r: "fst (request m ep d (outcome e) w) = Inl ''Session expired. Please login again.''"
    "token (snd (request m ep d (outcome e) w)) = None"
    "session_auth_token (snd (request m ep d (outcome e) w)) = None"
    "new_effects w (snd (request m ep d (outcome e) w)) =
       [Fetched \<lparr>http_method = m, endpoint = ep, authorization = getHeaders w, payload = d\<rparr>, AuthLogout]"
    using o by (simp_all add: request_def request_settle_def request_catch_def clearToken_def
        Let_def new_effects_def)
  have f: "fetched_records p e = None" using assms by (rule fetched_not_unauthorized)
  have t: "token (pullFromServer_settle p e w) = None"
    using assms f by (simp add: pullFromServer_settle_def pull_try_none request_settle_token)
  have ne: "new_effects w (pullFromServer_settle p e w) = [AuthLogout]"
    using assms f by (simp add: settle_none_effects)
  have b: "fst (pullFromServer_begin p (pullFromServer_settle p e w)) = False"
    using t by (simp add: pullFromServer_begin_def)
  have ft: "fetches (trace (pullFromServer_settle p e w)) = fetches (trace w)"
    by (rule settle_keeps)
  have run: "token (world (run p evs \<lparr>world = pullFromServer_settle p e w, pulls_in_flight = n\<rparr>)) = None
          \<and> fetches (trace (world (run p evs \<lparr>world = pullFromServer_settle p e w, pulls_in_flight = n\<rparr>)))
              = fetches (trace w)" if "no_login evs"
    using run_no_token [of "\<lparr>world = pullFromServer_settle p e w, pulls_in_flight = n\<rparr>" evs p] t ft that
    by simp
  from r t ne b run show ?thesis by blast
qed

theorem auth_expired_witness:
  "unauthorized (outcome (demo_env 2000 (Response 401 (Inr (JObject (Some ''Invalid token''))))))
   \<and> token (pullFromServer_settle demo_platform
        (demo_env 2000 (Response 401 (Inr (JObject (Some ''Invalid token'')))))
        (demo_world [''A''] 1000 None [])) = None
   \<and> new_effects (demo_world [''A''] 1000 None []) (pullFromServer_settle demo_platform
        (demo_env 2000 (Response 401 (Inr (JObject (Some ''Invalid token'')))))
        (demo_world [''A''] 1000 None [])) = [AuthLogout]
   \<and> fetches (trace (world (run demo_platform
        [PullCall, BecameVisible, PushCall ''add'' \<lparr>item_id = ''1'', item_fields = ()\<rparr>
           (demo_env 2100 (Response 200 (Inr JAtom)))]
        \<lparr>world = pullFromServer_settle demo_platform
           (demo_env 2000 (Response 401 (Inr (JObject (Some ''Invalid token'')))))
           (demo_world [''A''] 1000 None []), pulls_in_flight = 0\<rparr>))) = []"
proof -
  let ?e = "demo_env 2000 (Response 401 (Inr (JObject (Some ''Invalid token''))))"
  let ?w = "demo_world [''A''] 1000 None []"
  let ?evs = "[PullCall, BecameVisible, PushCall ''add'' \<lparr>item_id = ''1'', item_fields = ()\<rparr>
           (demo_env 2100 (Response 200 (Inr JAtom)))] :: (string, unit) event list"
  have u: "unauthorized (outcome ?e)" by (simp add: unauthorized_def demo_defs)
  have n: "no_login ?evs" by (simp add: no_login_def)
  have t: "fetches (trace ?w) = []" by (simp add: demo_defs)
  from auth_expired [OF u, where p = demo_platform and w = ?w and evs = ?evs and n = 0] u n t
  show ?thesis by simp
qed

text \<open>
  C7, as the code has it. In a signed-in context (\<open>USE_API\<close> on and a token that is
  not empty, as the guard of \<open>pushToServer\<close> tests it) a drain leaves in the queue exactly the
  changes whose submission threw, in their order, each stamped with the reading of
  \<open>Date.now()\<close>; an entry has no count of attempts. Nothing bounds the retries and no
  kind of error ends them: as long as every submission throws, every cycle leaves the same
  changes queued. The caller of \<open>pushToServer\<close> gets \<open>null\<close>, not the error. (A
  submission answered 401 is left aside here, since it also clears the token.)
\<close>

theorem retry_lifecycle:
  assumes "USE_API p" and "token w = Some t" and "t \<noteq> []"
      and "list_all (\<lambda>c. known_action (action c)) (pendingChanges w)"
  shows "(list_all (\<lambda>ce. \<not> unauthorized (outcome (snd ce))) (paired envs (pendingChanges w)) \<longrightarrow>
            pendingChanges (retryPendingChanges p envs w) =
              map requeued (filter (\<lambda>ce. throwing (outcome (snd ce))) (paired envs (pendingChanges w))))
     \<and> ((\<forall>envs\<in>set envss. \<forall>i<length (pendingChanges w).
            throwing (outcome (envs i)) \<and> \<not> unauthorized (outcome (envs i))) \<longrightarrow>
          map (\<lambda>c. (action c, itemData c)) (pendingChanges (cycles p envss w))
            = map (\<lambda>c. (action c, itemData c)) (pendingChanges w))
     \<and> (known_action act \<and> throwing (outcome e) \<longrightarrow> fst (pushToServer p e act d w) = Some JNull)"
proof (intro conjI impI)
  assume u: "list_all (\<lambda>ce. \<not> unauthorized (outcome (snd ce))) (paired envs (pendingChanges w))"
  have k: "list_all (\<lambda>c. known_action (action c)) (map fst (paired envs (pendingChanges w)))"
    using assms(4) by simp
  from retry_queue [OF assms(1,2,3) u] filter_known [OF k, of "\<lambda>ce. throwing (outcome (snd ce))"]
  show "pendingChanges (retryPendingChanges p envs w) =
      map requeued (filter (\<lambda>ce. throwing (outcome (snd ce))) (paired envs (pendingChanges w)))"
    by simp
next
  assume "\<forall>envs\<in>set envss. \<forall>i<length (pendingChanges w).
            throwing (outcome (envs i)) \<and> \<not> unauthorized (outcome (envs i))"
  with cycles_all_throw [OF assms(1,3,2,4)]
  show "map (\<lambda>c. (action c, itemData c)) (pendingChanges (cycles p envss w))
            = map (\<lambda>c. (action c, itemData c)) (pendingChanges w)"
    by blast
next
  assume "known_action act \<and> throwing (outcome e)"
  with assms show "fst (pushToServer p e act d w) = Some JNull"
    by (simp add: push_throwing_null)
qed

theorem retry_lifecycle_witness:
  "pendingChanges (retryPendingChanges demo_platform
       (\<lambda>i. if i = 0 then demo_accepting i else demo_rejecting i)
       (demo_world [] 0 None [demo_change ''add'' ''1'' 10, demo_change ''sell'' ''2'' 11]))
     = [demo_change ''sell'' ''2'' 20]
   \<and> map (\<lambda>c. (action c, itemData c)) (pendingChanges (cycles demo_platform
         [demo_rejecting, demo_rejecting, demo_rejecting]
         (demo_world [] 0 None [demo_change ''add'' ''1'' 10, demo_change ''sell'' ''2'' 11])))
     = [(''add'', \<lparr>item_id = ''1'', item_fields = ()\<rparr>), (''sell'', \<lparr>item_id = ''2'', item_fields = ()\<rparr>)]
   \<and> fst (pushToServer demo_platform (demo_rejecting 0) ''add'' \<lparr>item_id = ''1'', item_fields = ()\<rparr>
         (demo_world [] 0 None [demo_change ''add'' ''1'' 10, demo_change ''sell'' ''2'' 11]))
     = Some JNull"
proof -
  let ?w = "demo_world [] 0 None [demo_change ''add'' ''1'' 10, demo_change ''sell'' ''2'' 11]"
  let ?envs = "\<lambda>i. if i = 0 then demo_accepting i else demo_rejecting i"
  let ?envss = "[demo_rejecting, demo_rejecting, demo_rejecting]"
  have h: "USE_API demo_platform" "token ?w = Some ''t0''" "''t0'' \<noteq> []"
    "list_all (\<lambda>c. known_action (action c)) (pendingChanges ?w)"
    by (simp_all add: demo_defs known_action_def)
  have q: "pendingChanges ?w = [demo_change ''add'' ''1'' 10, demo_change ''sell'' ''2'' 11]"
    by (simp add: demo_defs)
  have p: "paired ?envs (pendingChanges ?w)
      = [(demo_change ''add'' ''1'' 10, demo_accepting 0), (demo_change ''sell'' ''2'' 11, demo_rejecting 1)]"
    by (simp add: q paired_def upt_rec)
  have a: "list_all (\<lambda>ce. \<not> unauthorized (outcome (snd ce))) (paired ?envs (pendingChanges ?w))"
    by (simp add: p) (simp add: demo_defs unauthorized_def)
  have b: "\<forall>envs\<in>set ?envss. \<forall>i<length (pendingChanges ?w).
            throwing (outcome (envs i)) \<and> \<not> unauthorized (outcome (envs i))"
    by (simp add: demo_defs throwing_def unauthorized_def error_message_def)
  have c: "known_action ''add'' \<and> throwing (outcome (demo_rejecting 0))"
    by (simp add: demo_defs known_action_def throwing_def error_message_def)
  have f: "map requeued (filter (\<lambda>ce. throwing (outcome (snd ce))) (paired ?envs (pendingChanges ?w)))
      = [demo_change ''sell'' ''2'' 20]"
    by (simp add: p) (simp add: demo_defs throwing_def error_message_def requeued_def)
  have k: "map (\<lambda>c. (action c, itemData c)) (pendingChanges ?w)
     = [(''add'', \<lparr>item_id = ''1'', item_fields = ()\<rparr>), (''sell'', \<lparr>item_id = ''2'', item_fields = ()\<rparr>)]"
    by (simp add: demo_defs)
  from retry_lifecycle [OF h, where envs = ?envs and envss = ?envss and act = "''add''"
      and e = "demo_rejecting 0" and d = "\<lparr>item_id = ''1'', item_fields = ()\<rparr>"] a b c f k
  show ?thesis by simp
qed

text \<open>
  C7, the claim as it stands, fails: a change that the server rejects with status 400
  is still queued after three cycles, was submitted in each of them, and its caller got
  \<open>null\<close>.
\<close>

theorem unbounded_retry_counterexample:
  "pendingChanges (cycles demo_platform [demo_rejecting, demo_rejecting, demo_rejecting]
       (demo_world [] 0 None [demo_change ''add'' ''1'' 10]))
     = [demo_change ''add'' ''1'' 20]
   \<and> fst (pushToServer demo_platform (demo_rejecting 0) ''add'' \<lparr>item_id = ''1'', item_fields = ()\<rparr>
         (demo_world [] 0 None [])) = Some JNull
   \<and> length (fetches (trace (cycles demo_platform [demo_rejecting, demo_rejecting, demo_rejecting]
       (demo_world [] 0 None [demo_change ''add'' ''1'' 10])))) = 3"
  by (simp add: demo_defs push_defs)

text \<open>
  C8, as the code has it. In a signed-in context (\<open>USE_API\<close> on and a token that is
  not empty, as the guard of \<open>pushToServer\<close> tests it), if every submission of a drain
  succeeds then the queue is empty afterwards and the changes were
  submitted one by one in the order of the queue.
\<close>

theorem drain_empties_queue:
  assumes "USE_API p" and "token w = Some t" and "t \<noteq> []"
      and "list_all (\<lambda>c. known_action (action c)) (pendingChanges w)"
      and "list_all (\<lambda>ce. succeeding (outcome (snd ce))) (paired envs (pendingChanges w))"
  shows "pendingChanges (retryPendingChanges p envs w) = []
     \<and> fetches (trace (retryPendingChanges p envs w))
         = fetches (trace w) @ map (call_of (Some t)) (pendingChanges w)"
proof -
  let ?ps = "paired envs (pendingChanges w)"
  have u: "list_all (\<lambda>ce. \<not> unauthorized (outcome (snd ce))) ?ps"
    using assms(5) by (auto simp: list_all_iff dest: succeeding_fine)
  have n: "filter (\<lambda>ce. throwing (outcome (snd ce))) ?ps = []"
    using assms(5) by (auto simp: list_all_iff filter_empty_conv dest: succeeding_fine)
  have k: "list_all (\<lambda>c. known_action (action c)) (map fst ?ps)" using assms(4) by simp
  have m: "map (\<lambda>ce. call_of (Some t) (fst ce)) ?ps = map (call_of (Some t)) (pendingChanges w)"
    by (rule paired_map_fst)
  from retry_queue [OF assms(1,2,3) u] filter_known [OF k, of "\<lambda>ce. throwing (outcome (snd ce))"] n m
  show ?thesis by simp
qed

theorem drain_empties_queue_witness:
  "pendingChanges (retryPendingChanges demo_platform demo_accepting
       (demo_world [] 0 None [demo_change ''add'' ''1'' 10, demo_change ''update'' ''1'' 11])) = []
   \<and> fetches (trace (retryPendingChanges demo_platform demo_accepting
       (demo_world [] 0 None [demo_change ''add'' ''1'' 10, demo_change ''update'' ''1'' 11])))
     = [\<lparr>http_method = POST, endpoint = ''/api/inventory'', authorization = Some ''t0'',
         payload = Some \<lparr>item_id = ''1'', item_fields = ()\<rparr>\<rparr>,
        \<lparr>http_method = PUT, endpoint = ''/api/inventory/1'', authorization = Some ''t0'',
         payload = Some \<lparr>item_id = ''1'', item_fields = ()\<rparr>\<rparr>]"
proof -
  let ?w = "demo_world [] 0 None [demo_change ''add'' ''1'' 10, demo_change ''update'' ''1'' 11]"
  have h: "USE_API demo_platform" "token ?w = Some ''t0''" "''t0'' \<noteq> []"
    "list_all (\<lambda>c. known_action (action c)) (pendingChanges ?w)"
    by (simp_all add: demo_defs known_action_def)
  have s: "list_all (\<lambda>ce. succeeding (outcome (snd ce))) (paired demo_accepting (pendingChanges ?w))"
    using paired_all_snd [of "\<lambda>e. succeeding (outcome e)" demo_accepting "pendingChanges ?w"]
    by (simp add: demo_accepting_def demo_env_def succeeding_def)
  have c: "fetches (trace ?w) @ map (call_of (Some ''t0'')) (pendingChanges ?w)
     = [\<lparr>http_method = POST, endpoint = ''/api/inventory'', authorization = Some ''t0'',
         payload = Some \<lparr>item_id = ''1'', item_fields = ()\<rparr>\<rparr>,
        \<lparr>http_method = PUT, endpoint = ''/api/inventory/1'', authorization = Some ''t0'',
         payload = Some \<lparr>item_id = ''1'', item_fields = ()\<rparr>\<rparr>]"
    by (simp add: demo_defs call_of_def)
  from drain_empties_queue [OF h s] c show ?thesis by simp
qed

text \<open>
  C8, the claim as it stands, fails without a token: the guard of \<open>pushToServer\<close>
  returns before any request, so the drain empties the queue and submits nothing.
\<close>

theorem signed_out_drain_counterexample:
  "pendingChanges (retryPendingChanges demo_platform demo_accepting
       ((demo_world [] 0 None [demo_change ''add'' ''1'' 10, demo_change ''update'' ''1'' 11])
          \<lparr>token := None\<rparr>)) = []
   \<and> fetches (trace (retryPendingChanges demo_platform demo_accepting
       ((demo_world [] 0 None [demo_change ''add'' ''1'' 10, demo_change ''update'' ''1'' 11])
          \<lparr>token := None\<rparr>))) = []"
  by (simp add: demo_defs push_defs)

text \<open>
  C6. A change whose resubmission fails because the network is down is not kept:
  \<open>request\<close> turns \<open>Failed to fetch\<close> into the return value \<open>null\<close>, so the
  \<open>catch\<close> of \<open>pushToServer\<close> that would queue the change again never runs, and
  the change, already taken out of the queue, is gone after the drain. A change that the
  server answers with an error status is queued again.
\<close>

theorem offline_drain_loses_change:
  "pendingChanges (retryPendingChanges demo_platform demo_offline
       (demo_world [] 0 None [demo_change ''add'' ''1'' 10])) = []
   \<and> fetches (trace (retryPendingChanges demo_platform demo_offline
       (demo_world [] 0 None [demo_change ''add'' ''1'' 10])))
     = [\<lparr>http_method = POST, endpoint = ''/api/inventory'', authorization = Some ''t0'',
         payload = Some \<lparr>item_id = ''1'', item_fields = ()\<rparr>\<rparr>]
   \<and> pendingChanges (retryPendingChanges demo_platform demo_rejecting
       (demo_world [] 0 None [demo_change ''add'' ''1'' 10])) = [demo_change ''add'' ''1'' 20]"
  by (simp add: demo_defs push_defs)

end
